theory Spec2Isabelle
  imports Main "HOL-Library.AList" "HOL-Library.Sublist" "HOL-Library.Word" "HOL-Library.Multiset"
begin

section \<open>JavaScript values and records\<close>

text \<open>
  The store is generic in the record type \<open>T\<close>. A record is modelled as a JavaScript
  object whose properties hold primitive values; numbers are the integers (floating
  point is outside the model). Everything the class does with a record goes through
  property reads \<open>data[key]\<close> and the spread \<open>{...a, ...b}\<close>, so an object is the partial
  map from its own property names to their values. A property can hold \<open>undefined\<close>,
  which is different from the property being absent.
\<close>

datatype jsval = Undefined | Null | Bool bool | Num int | Str string

type_synonym obj = "string \<rightharpoonup> jsval"

text \<open>
  \<open>data[key]\<close>: reading an absent property gives \<open>undefined\<close>. The keys read are field
  names of records; the names that every object inherits from \<open>Object.prototype\<close>
  (\<open>constructor\<close>, \<open>toString\<close>) are outside the model.
\<close>

definition property :: "obj \<Rightarrow> string \<Rightarrow> jsval" where
  "property data key = (case data key of None \<Rightarrow> Undefined | Some v \<Rightarrow> v)"

text \<open>\<open>{ ...existingData, ...data }\<close>: the properties of the second object win.\<close>

definition spread :: "obj \<Rightarrow> obj \<Rightarrow> obj" where
  "spread existingData data = existingData ++ data"

subsection \<open>\<open>String(value)\<close>, \<open>toLowerCase\<close> and the string tests\<close>

fun digit_char :: "nat \<Rightarrow> char" where
  "digit_char n = char_of (of_char (CHR ''0'') + n)"

fun show_nat :: "nat \<Rightarrow> string" where
  "show_nat n = (if n < 10 then [digit_char n] else show_nat (n div 10) @ [digit_char (n mod 10)])"

definition show_int :: "int \<Rightarrow> string" where
  "show_int i = (if i < 0 then CHR ''-'' # show_nat (nat (- i)) else show_nat (nat i))"

fun String :: "jsval \<Rightarrow> string" where
  "String Undefined = ''undefined''"
| "String Null = ''null''"
| "String (Bool b) = (if b then ''true'' else ''false'')"
| "String (Num i) = show_int i"
| "String (Str s) = s"

text \<open>
  Characters are bytes; \<open>toLowerCase\<close> is modelled on the ASCII letters. \<open>String\<close> writes
  an integer in decimal digits, as the language does below \<open>10^21\<close>.
\<close>

definition lower_char :: "char \<Rightarrow> char" where
  "lower_char c =
     (let n = (of_char c :: nat) in if 65 \<le> n \<and> n \<le> 90 then char_of (n + 32) else c)"

definition toLowerCase :: "string \<Rightarrow> string" where
  "toLowerCase s = map lower_char s"

definition includes_str :: "string \<Rightarrow> string \<Rightarrow> bool" where
  "includes_str s t = sublist t s"

definition startsWith :: "string \<Rightarrow> string \<Rightarrow> bool" where
  "startsWith s t = prefix t s"

definition endsWith :: "string \<Rightarrow> string \<Rightarrow> bool" where
  "endsWith s t = suffix t s"

subsection \<open>The relational operators\<close>

text \<open>
  \<open>ToNumber\<close>, with \<open>None\<close> for \<open>NaN\<close>. A string converts when, once its white space is
  trimmed, it is empty or an optionally signed run of decimal digits; the other
  numeric notations of JavaScript denote numbers that this model writes in no other
  way, and convert to \<open>NaN\<close> here.
\<close>

definition is_space :: "char \<Rightarrow> bool" where
  "is_space c = (c \<in> set [CHR '' '', CHR 0x09, CHR 0x0A, CHR 0x0B, CHR 0x0C, CHR 0x0D])"

definition trim :: "string \<Rightarrow> string" where
  "trim s = rev (dropWhile is_space (rev (dropWhile is_space s)))"

definition is_digit :: "char \<Rightarrow> bool" where
  "is_digit c = (let n = (of_char c :: nat) in 48 \<le> n \<and> n \<le> 57)"

definition digits_value :: "string \<Rightarrow> nat" where
  "digits_value ds = foldl (\<lambda>acc c. 10 * acc + (of_char c - 48)) 0 ds"

definition unsigned_number :: "string \<Rightarrow> int option" where
  "unsigned_number ds =
     (if ds \<noteq> [] \<and> list_all is_digit ds then Some (int (digits_value ds)) else None)"

definition StringToNumber :: "string \<Rightarrow> int option" where
  "StringToNumber s =
     (case trim s of
        [] \<Rightarrow> Some 0
      | c # cs \<Rightarrow>
          if c = CHR ''-'' then map_option uminus (unsigned_number cs)
          else if c = CHR ''+'' then unsigned_number cs
          else unsigned_number (c # cs))"

fun ToNumber :: "jsval \<Rightarrow> int option" where
  "ToNumber Undefined = None"
| "ToNumber Null = Some 0"
| "ToNumber (Bool b) = Some (if b then 1 else 0)"
| "ToNumber (Num i) = Some i"
| "ToNumber (Str s) = StringToNumber s"

text \<open>Strings compare by their code units, the shorter of two equal prefixes first.\<close>

fun string_less :: "string \<Rightarrow> string \<Rightarrow> bool" where
  "string_less [] [] = False"
| "string_less [] (d # t) = True"
| "string_less (c # s) [] = False"
| "string_less (c # s) (d # t) =
     (if (of_char c :: nat) < of_char d then True
      else if (of_char d :: nat) < of_char c then False
      else string_less s t)"

text \<open>
  The abstract relational comparison \<open>x < y\<close> of the language: \<open>None\<close> is its result
  \<open>undefined\<close>, which it gives when an operand converts to \<open>NaN\<close>.
\<close>

fun less_than :: "jsval \<Rightarrow> jsval \<Rightarrow> bool option" where
  "less_than (Str s) (Str t) = Some (string_less s t)"
| "less_than x y =
     (case (ToNumber x, ToNumber y) of
        (Some a, Some b) \<Rightarrow> Some (a < b)
      | _ \<Rightarrow> None)"

definition js_lt :: "jsval \<Rightarrow> jsval \<Rightarrow> bool" where
  "js_lt x y = (less_than x y = Some True)"

definition js_gt :: "jsval \<Rightarrow> jsval \<Rightarrow> bool" where
  "js_gt x y = (less_than y x = Some True)"

definition js_le :: "jsval \<Rightarrow> jsval \<Rightarrow> bool" where
  "js_le x y = (less_than y x = Some False)"

definition js_ge :: "jsval \<Rightarrow> jsval \<Rightarrow> bool" where
  "js_ge x y = (less_than x y = Some False)"

section \<open>The serialized form\<close>

text \<open>
  \<open>saveChanges\<close> and \<open>export\<close> write \<open>JSON.stringify(Array.from(this.data.entries()))\<close>;
  \<open>initialize\<close> and \<open>import\<close> read a string with \<open>JSON.parse\<close> and take it apart as a list
  of \<open>[id, data]\<close> pairs. A string is represented by what \<open>JSON.parse\<close> makes of it: the
  empty string, a string that is not JSON, or the JSON text of a list of pairs of an
  identifier and an object of primitive values. JSON has no \<open>undefined\<close>:
  \<open>JSON.stringify\<close> leaves out the properties that hold it. Numbers are integers that
  a double holds exactly; the other values that JSON does not keep (\<open>NaN\<close>, the
  infinities, \<open>-0\<close>, dates) have no counterpart among the values of the model.
\<close>

datatype json = JNull | JBool bool | JNum int | JStr string

type_synonym jobject = "string \<rightharpoonup> json"

datatype serialized = EmptyString | NotJSON | EntriesJSON "(string \<times> jobject) list"

fun to_json :: "jsval \<Rightarrow> json option" where
  "to_json Undefined = None"
| "to_json Null = Some JNull"
| "to_json (Bool b) = Some (JBool b)"
| "to_json (Num i) = Some (JNum i)"
| "to_json (Str s) = Some (JStr s)"

fun of_json :: "json \<Rightarrow> jsval" where
  "of_json JNull = Null"
| "of_json (JBool b) = Bool b"
| "of_json (JNum i) = Num i"
| "of_json (JStr s) = Str s"

definition stringify_object :: "obj \<Rightarrow> jobject" where
  "stringify_object data = (\<lambda>key. case data key of None \<Rightarrow> None | Some v \<Rightarrow> to_json v)"

definition parse_object :: "jobject \<Rightarrow> obj" where
  "parse_object j = (\<lambda>key. map_option of_json (j key))"

definition JSON_stringify :: "(string \<times> obj) list \<Rightarrow> serialized" where
  "JSON_stringify entries = EntriesJSON (map (\<lambda>(ident, data). (ident, stringify_object data)) entries)"

text \<open>\<open>None\<close>: \<open>JSON.parse\<close> throws a \<open>SyntaxError\<close>.\<close>

fun JSON_parse :: "serialized \<Rightarrow> (string \<times> obj) list option" where
  "JSON_parse EmptyString = None"
| "JSON_parse NotJSON = None"
| "JSON_parse (EntriesJSON es) = Some (map (\<lambda>(ident, j). (ident, parse_object j)) es)"

section \<open>Errors\<close>

datatype DatabaseErrorType =
    VALIDATION_FAILED
  | INVALID_COLLECTION_NAME
  | STORAGE_READ_ERROR
  | STORAGE_WRITE_ERROR
  | SERIALIZATION_ERROR
  | DOCUMENT_NOT_FOUND
  | DUPLICATE_KEY
  | INVALID_UPDATE
  | INVALID_QUERY
  | INITIALIZATION_ERROR
  | IMPORT_ERROR
  | EXPORT_ERROR
  | UNKNOWN_ERROR

text \<open>
  A \<open>DatabaseError\<close> is its type and its \<open>details\<close> object, one constructor of
  \<open>details\<close> for each shape the class throws; the message, a fixed text for each place,
  is left out.
\<close>

datatype DatabaseError = DatabaseError (error_type: DatabaseErrorType) (error_details: details)
and details =
    NameDetails string nat
  | EntryDetails string obj
  | OriginalError
  | AttemptsDetails nat
  | ValidationErrors "string list"
  | OperatorDetails string
  | ItemDetails nat obj DatabaseError
  | IdDetails string
  | IndexIdDetails nat string
  | UpdateDetails nat string obj DatabaseError
  | LimitDetails int
  | ImportDetails nat nat nat

section \<open>The store\<close>

text \<open>
  What the constructor receives, and the host: \<open>random_digit n\<close> is the \<open>n\<close>-th value of
  \<open>Math.floor(Math.random() * 16)\<close> that this instance draws, and \<open>host_accepts\<close> tells
  whether \<open>setDynamicProperty\<close> stores a string or throws (a dynamic property has a
  size limit). A validator is a predicate on the value of its field, as its type
  \<open>(value: T[K]) => boolean\<close> says; a property of the validators object can be empty,
  which \<open>validate\<close> skips.
\<close>

record config =
  collectionName :: string
  collectionValidators :: "(string \<times> (jsval \<Rightarrow> bool) option) list option"
  random_digit :: "nat \<Rightarrow> 4 word"
  host_accepts :: "serialized \<Rightarrow> bool"

text \<open>
  \<open>this.data\<close> is a \<open>Map\<close>, which iterates in insertion order: an association list,
  with \<open>map_of\<close> for \<open>get\<close>, \<open>AList.update\<close> for \<open>set\<close> (a present key keeps its place, a new
  one goes last) and \<open>AList.delete\<close> for \<open>delete\<close>. \<open>storage\<close> is the dynamic property of
  the host named \<open>collectionName\<close>, and \<open>draws\<close> counts the random digits drawn so far.
\<close>

record database =
  data :: "(string \<times> obj) list"
  storage :: "serialized option"
  draws :: nat

definition has :: "(string \<times> obj) list \<Rightarrow> string \<Rightarrow> bool" where
  "has m ident = (map_of m ident \<noteq> None)"

subsection \<open>\<open>saveChanges\<close>, \<open>generateId\<close>, \<open>validate\<close>\<close>

definition saveChanges :: "config \<Rightarrow> database \<Rightarrow> (DatabaseError + unit) \<times> database" where
  "saveChanges cfg db =
     (let entries = JSON_stringify (data db) in
      if host_accepts cfg entries then (Inr (), db\<lparr>storage := Some entries\<rparr>)
      else (Inl (DatabaseError STORAGE_WRITE_ERROR OriginalError), db))"

definition hex_digit :: "4 word \<Rightarrow> char" where
  "hex_digit w = ''0123456789abcdef'' ! unat w"

definition random_id :: "config \<Rightarrow> nat \<Rightarrow> string" where
  "random_id cfg n = map (\<lambda>i. hex_digit (random_digit cfg (n + i))) [0..<16]"

definition maxAttempts :: nat where
  "maxAttempts = 100"

function generateId_loop ::
  "config \<Rightarrow> (string \<times> obj) list \<Rightarrow> nat \<Rightarrow> nat \<Rightarrow> DatabaseError + (string \<times> nat)" where
  "generateId_loop cfg m attempts n =
     (if attempts \<ge> maxAttempts then Inl (DatabaseError DUPLICATE_KEY (AttemptsDetails maxAttempts))
      else let ident = random_id cfg n in
        if has m ident then generateId_loop cfg m (attempts + 1) (n + 16)
        else Inr (ident, n + 16))"
  by pat_completeness auto
termination
  by (relation "measure (\<lambda>(cfg, m, attempts, n). maxAttempts - attempts)") auto

text \<open>The digits of the attempts that collided stay drawn when the loop gives up.\<close>

definition generateId :: "config \<Rightarrow> database \<Rightarrow> (DatabaseError + string) \<times> database" where
  "generateId cfg db =
     (case generateId_loop cfg (data db) 0 (draws db) of
        Inl e \<Rightarrow> (Inl e, db\<lparr>draws := draws db + 16 * maxAttempts\<rparr>)
      | Inr (ident, n) \<Rightarrow> (Inr ident, db\<lparr>draws := n\<rparr>))"

fun validationErrors :: "(string \<times> (jsval \<Rightarrow> bool) option) list \<Rightarrow> obj \<Rightarrow> string list" where
  "validationErrors [] doc = []"
| "validationErrors ((key, validator) # rest) doc =
     (case validator of
        None \<Rightarrow> validationErrors rest doc
      | Some p \<Rightarrow>
          if \<not> p (property doc key) then key # validationErrors rest doc
          else validationErrors rest doc)"

definition validate :: "config \<Rightarrow> obj \<Rightarrow> DatabaseError + bool" where
  "validate cfg doc =
     (case collectionValidators cfg of
        None \<Rightarrow> Inr True
      | Some validators \<Rightarrow>
          let errors = validationErrors validators doc in
          if length errors > 0 then Inl (DatabaseError VALIDATION_FAILED (ValidationErrors errors))
          else Inr True)"

subsection \<open>The constructor\<close>

fun initialize_loop ::
  "config \<Rightarrow> (string \<times> obj) list \<Rightarrow> (string \<times> obj) list \<Rightarrow> DatabaseError + (string \<times> obj) list" where
  "initialize_loop cfg [] m = Inr m"
| "initialize_loop cfg ((ident, d) # entries) m =
     (case validate cfg d of
        Inl e \<Rightarrow> Inl e
      | Inr ok \<Rightarrow>
          if ok then initialize_loop cfg entries (AList.update ident d m)
          else Inl (DatabaseError VALIDATION_FAILED (EntryDetails ident d)))"

definition initialize :: "config \<Rightarrow> serialized option \<Rightarrow> DatabaseError + (string \<times> obj) list" where
  "initialize cfg storedData =
     (case storedData of
        None \<Rightarrow> Inr []
      | Some EmptyString \<Rightarrow> Inr []
      | Some s \<Rightarrow>
          (case JSON_parse s of
             None \<Rightarrow> Inl (DatabaseError INITIALIZATION_ERROR OriginalError)
           | Some entries \<Rightarrow> initialize_loop cfg entries []))"

text \<open>A constructor that throws gives the caller no object: the result is the error alone.\<close>

definition new_Database :: "config \<Rightarrow> serialized option \<Rightarrow> DatabaseError + database" where
  "new_Database cfg storedData =
     (if length (collectionName cfg) < 1 \<or> length (collectionName cfg) > 16
      then Inl (DatabaseError INVALID_COLLECTION_NAME
                  (NameDetails (collectionName cfg) (length (collectionName cfg))))
      else case initialize cfg storedData of
             Inl e \<Rightarrow> Inl e
           | Inr m \<Rightarrow> Inr \<lparr>data = m, storage = storedData, draws = 0\<rparr>)"

subsection \<open>\<open>clear\<close>, \<open>create\<close>, \<open>createMany\<close>\<close>

definition clear :: "config \<Rightarrow> database \<Rightarrow> (DatabaseError + unit) \<times> database" where
  "clear cfg db = saveChanges cfg (db\<lparr>data := []\<rparr>)"

definition create :: "config \<Rightarrow> obj \<Rightarrow> database \<Rightarrow> (DatabaseError + string) \<times> database" where
  "create cfg d db =
     (case validate cfg d of
        Inl e \<Rightarrow> (Inl e, db)
      | Inr _ \<Rightarrow>
          (case generateId cfg db of
             (Inl e, db1) \<Rightarrow> (Inl e, db1)
           | (Inr ident, db1) \<Rightarrow>
               (case saveChanges cfg (db1\<lparr>data := AList.update ident d (data db1)\<rparr>) of
                  (Inl e, db2) \<Rightarrow> (Inl e, db2)
                | (Inr _, db2) \<Rightarrow> (Inr ident, db2))))"

fun validate_items :: "config \<Rightarrow> obj list \<Rightarrow> nat \<Rightarrow> DatabaseError + unit" where
  "validate_items cfg [] index = Inr ()"
| "validate_items cfg (item # items) index =
     (case validate cfg item of
        Inl e \<Rightarrow> Inl (DatabaseError VALIDATION_FAILED (ItemDetails index item e))
      | Inr _ \<Rightarrow> validate_items cfg items (index + 1))"

fun create_items ::
  "config \<Rightarrow> obj list \<Rightarrow> string list \<Rightarrow> database \<Rightarrow> (DatabaseError + string list) \<times> database" where
  "create_items cfg [] ids db = (Inr ids, db)"
| "create_items cfg (item # items) ids db =
     (case generateId cfg db of
        (Inl e, db1) \<Rightarrow> (Inl e, db1)
      | (Inr ident, db1) \<Rightarrow>
          create_items cfg items (ids @ [ident]) (db1\<lparr>data := AList.update ident item (data db1)\<rparr>))"

definition createMany ::
  "config \<Rightarrow> obj list \<Rightarrow> database \<Rightarrow> (DatabaseError + string list) \<times> database" where
  "createMany cfg items db =
     (case validate_items cfg items 0 of
        Inl e \<Rightarrow> (Inl e, db)
      | Inr _ \<Rightarrow>
          (case create_items cfg items [] db of
             (Inl e, db1) \<Rightarrow> (Inl e, db1)
           | (Inr ids, db1) \<Rightarrow>
               (case saveChanges cfg db1 of
                  (Inl e, db2) \<Rightarrow> (Inl e, db2)
                | (Inr _, db2) \<Rightarrow> (Inr ids, db2))))"

subsection \<open>\<open>update\<close>, \<open>updateMany\<close>\<close>

text \<open>
  A stored record is an object and so is truthy: \<open>!existingData\<close> holds exactly when the
  key is absent.
\<close>

definition update :: "config \<Rightarrow> string \<Rightarrow> obj \<Rightarrow> database \<Rightarrow> (DatabaseError + unit) \<times> database" where
  "update cfg ident d db =
     (case map_of (data db) ident of
        None \<Rightarrow> (Inl (DatabaseError DOCUMENT_NOT_FOUND (IdDetails ident)), db)
      | Some existingData \<Rightarrow>
          (let updatedData = spread existingData d in
           case validate cfg updatedData of
             Inl e \<Rightarrow> (Inl e, db)
           | Inr _ \<Rightarrow> saveChanges cfg (db\<lparr>data := AList.update ident updatedData (data db)\<rparr>)))"

fun validate_updates ::
  "config \<Rightarrow> (string \<times> obj) list \<Rightarrow> (string \<times> obj) list \<Rightarrow> nat \<Rightarrow> DatabaseError + unit" where
  "validate_updates cfg m [] index = Inr ()"
| "validate_updates cfg m ((ident, d) # updates) index =
     (case map_of m ident of
        None \<Rightarrow> Inl (DatabaseError DOCUMENT_NOT_FOUND (IndexIdDetails index ident))
      | Some existingData \<Rightarrow>
          (case validate cfg (spread existingData d) of
             Inl e \<Rightarrow> Inl (DatabaseError VALIDATION_FAILED (UpdateDetails index ident d e))
           | Inr _ \<Rightarrow> validate_updates cfg m updates (index + 1)))"

text \<open>
  The second pass reads the record again, after the updates before it: two updates of
  one id are merged one after the other. Spreading a missing record adds nothing.
\<close>

fun apply_updates :: "(string \<times> obj) list \<Rightarrow> (string \<times> obj) list \<Rightarrow> (string \<times> obj) list" where
  "apply_updates m [] = m"
| "apply_updates m ((ident, d) # updates) =
     (let existingData = (case map_of m ident of None \<Rightarrow> Map.empty | Some e \<Rightarrow> e)
      in apply_updates (AList.update ident (spread existingData d) m) updates)"

definition updateMany ::
  "config \<Rightarrow> (string \<times> obj) list \<Rightarrow> database \<Rightarrow> (DatabaseError + unit) \<times> database" where
  "updateMany cfg updates db =
     (let originalData = data db in
      case validate_updates cfg (data db) updates 0 of
        Inl e \<Rightarrow> (Inl e, db\<lparr>data := originalData\<rparr>)
      | Inr _ \<Rightarrow>
          (case saveChanges cfg (db\<lparr>data := apply_updates (data db) updates\<rparr>) of
             (Inl e, db1) \<Rightarrow> (Inl e, db1\<lparr>data := originalData\<rparr>)
           | (Inr _, db1) \<Rightarrow> (Inr (), db1)))"

subsection \<open>\<open>delete\<close>, \<open>deleteMany\<close>\<close>

definition delete :: "config \<Rightarrow> string \<Rightarrow> database \<Rightarrow> (DatabaseError + unit) \<times> database" where
  "delete cfg ident db =
     (if \<not> has (data db) ident then (Inl (DatabaseError DOCUMENT_NOT_FOUND (IdDetails ident)), db)
      else saveChanges cfg (db\<lparr>data := AList.delete ident (data db)\<rparr>))"

fun verify_ids :: "(string \<times> obj) list \<Rightarrow> string list \<Rightarrow> nat \<Rightarrow> DatabaseError + unit" where
  "verify_ids m [] index = Inr ()"
| "verify_ids m (ident # ids) index =
     (if \<not> has m ident then Inl (DatabaseError DOCUMENT_NOT_FOUND (IndexIdDetails index ident))
      else verify_ids m ids (index + 1))"

definition deleteMany :: "config \<Rightarrow> string list \<Rightarrow> database \<Rightarrow> (DatabaseError + unit) \<times> database" where
  "deleteMany cfg ids db =
     (let originalData = data db in
      case verify_ids (data db) ids 0 of
        Inl e \<Rightarrow> (Inl e, db\<lparr>data := originalData\<rparr>)
      | Inr _ \<Rightarrow>
          (case saveChanges cfg (db\<lparr>data := fold AList.delete ids (data db)\<rparr>) of
             (Inl e, db1) \<Rightarrow> (Inl e, db1\<lparr>data := originalData\<rparr>)
           | (Inr _, db1) \<Rightarrow> (Inr (), db1)))"

subsection \<open>\<open>findById\<close>, \<open>query\<close>\<close>

definition findById :: "database \<Rightarrow> string \<Rightarrow> DatabaseError + (string \<times> obj)" where
  "findById db ident =
     (case map_of (data db) ident of
        None \<Rightarrow> Inl (DatabaseError DOCUMENT_NOT_FOUND (IdDetails ident))
      | Some d \<Rightarrow> Inr (ident, d))"

text \<open>
  \<open>Other\<close> is an operator string outside the nine of \<open>FilterOperator\<close>, the \<open>default\<close>
  case. The conditions are a list, so \<open>Array.isArray(conditions)\<close> holds; the sort
  options are \<open>Object.entries(sort)\<close>, and a limit is an integer.
\<close>

datatype FilterOperator =
  Eq | Ne | Gt | Lt | Ge | Le | Contains | StartsWith | EndsWith | Other string

datatype FilterCondition =
  FilterCondition (field: string) (operator: FilterOperator) (condition_value: jsval)

datatype SortDirection = Asc | Desc

fun evaluateCondition :: "obj \<Rightarrow> FilterCondition \<Rightarrow> DatabaseError + bool" where
  "evaluateCondition d condition =
     (let v = property d (field condition); conditionValue = condition_value condition in
      case operator condition of
        Eq \<Rightarrow> Inr (v = conditionValue)
      | Ne \<Rightarrow> Inr (v \<noteq> conditionValue)
      | Gt \<Rightarrow> Inr (js_gt v conditionValue)
      | Lt \<Rightarrow> Inr (js_lt v conditionValue)
      | Ge \<Rightarrow> Inr (js_ge v conditionValue)
      | Le \<Rightarrow> Inr (js_le v conditionValue)
      | Contains \<Rightarrow>
          Inr (includes_str (toLowerCase (String v)) (toLowerCase (String conditionValue)))
      | StartsWith \<Rightarrow>
          Inr (startsWith (toLowerCase (String v)) (toLowerCase (String conditionValue)))
      | EndsWith \<Rightarrow>
          Inr (endsWith (toLowerCase (String v)) (toLowerCase (String conditionValue)))
      | Other name \<Rightarrow> Inl (DatabaseError INVALID_QUERY (OperatorDetails name)))"

text \<open>\<open>conditions.every(...)\<close> stops at the first condition that is false or throws.\<close>

fun every_condition :: "obj \<Rightarrow> FilterCondition list \<Rightarrow> DatabaseError + bool" where
  "every_condition d [] = Inr True"
| "every_condition d (condition # conditions) =
     (case evaluateCondition d condition of
        Inl e \<Rightarrow> Inl e
      | Inr b \<Rightarrow> if b then every_condition d conditions else Inr False)"

fun filter_entries ::
  "FilterCondition list \<Rightarrow> (string \<times> obj) list \<Rightarrow> DatabaseError + (string \<times> obj) list" where
  "filter_entries conditions [] = Inr []"
| "filter_entries conditions ((ident, d) # entries) =
     (case every_condition d conditions of
        Inl e \<Rightarrow> Inl e
      | Inr b \<Rightarrow>
          (case filter_entries conditions entries of
             Inl e \<Rightarrow> Inl e
           | Inr results \<Rightarrow> Inr (if b then (ident, d) # results else results)))"

text \<open>The comparator handed to \<open>results.sort\<close>, over \<open>Object.entries(sort)\<close>.\<close>

fun compare_by :: "(string \<times> SortDirection) list \<Rightarrow> obj \<Rightarrow> obj \<Rightarrow> int" where
  "compare_by [] a b = 0"
| "compare_by ((fld, direction) # sortEntries) a b =
     (let aVal = property a fld; bVal = property b fld in
      if aVal = bVal then compare_by sortEntries a b
      else let comparison = (if js_lt aVal bVal then - 1 else 1) in
        if direction = Asc then comparison else - comparison)"

text \<open>
  \<open>Array.prototype.sort\<close> is stable. Where the comparator orders the elements
  consistently, as \<open>compare_by\<close> does on values of one type, the result is the one
  stable sorted list, which insertion from the right computes: an element goes before
  the first element that the comparator does not put before it, so that elements that
  compare equal keep their order. On other comparators the language leaves the order to
  the implementation.
\<close>

fun insert_by :: "('a \<Rightarrow> 'a \<Rightarrow> int) \<Rightarrow> 'a \<Rightarrow> 'a list \<Rightarrow> 'a list" where
  "insert_by cmp x [] = [x]"
| "insert_by cmp x (y # ys) = (if cmp x y \<le> 0 then x # y # ys else y # insert_by cmp x ys)"

definition sort_by :: "('a \<Rightarrow> 'a \<Rightarrow> int) \<Rightarrow> 'a list \<Rightarrow> 'a list" where
  "sort_by cmp xs = foldr (insert_by cmp) xs []"

definition query ::
  "database \<Rightarrow> FilterCondition list \<Rightarrow> (string \<times> SortDirection) list option \<Rightarrow> int option
     \<Rightarrow> DatabaseError + (string \<times> obj) list" where
  "query db conditions sortOptions limit =
     (case filter_entries conditions (data db) of
        Inl e \<Rightarrow> Inl e
      | Inr filtered \<Rightarrow>
          (let results =
             (case sortOptions of
                None \<Rightarrow> filtered
              | Some sortEntries \<Rightarrow> sort_by (\<lambda>(_, a) (_, b). compare_by sortEntries a b) filtered)
           in case limit of
                None \<Rightarrow> Inr results
              | Some l \<Rightarrow>
                  if l < 0 then Inl (DatabaseError INVALID_QUERY (LimitDetails l))
                  else Inr (take (nat l) results)))"

subsection \<open>\<open>export\<close>, \<open>import\<close>\<close>

definition export :: "database \<Rightarrow> serialized" where
  "export db = JSON_stringify (data db)"

text \<open>The filter of \<open>import\<close> catches what \<open>validate\<close> throws and drops the entry.\<close>

definition import ::
  "config \<Rightarrow> serialized \<Rightarrow> database \<Rightarrow> (DatabaseError + unit) \<times> database" where
  "import cfg s db =
     (case JSON_parse s of
        None \<Rightarrow> (Inl (DatabaseError IMPORT_ERROR OriginalError), db)
      | Some entries \<Rightarrow>
          (let validEntries =
             filter (\<lambda>(_, v). case validate cfg v of Inl _ \<Rightarrow> False | Inr ok \<Rightarrow> ok) entries
           in if length validEntries \<noteq> length entries
              then (Inl (DatabaseError VALIDATION_FAILED
                      (ImportDetails (length entries) (length validEntries)
                         (length entries - length validEntries))), db)
              else
                (case clear cfg db of
                   (Inl e, db1) \<Rightarrow> (Inl e, db1)
                 | (Inr _, db1) \<Rightarrow>
                     saveChanges cfg
                       (db1\<lparr>data := fold (\<lambda>(ident, v). AList.update ident v) validEntries (data db1)\<rparr>))))"

section \<open>What the specification speaks of\<close>

text \<open>A record passes a field's validator; an empty property of the validators object counts as passed.\<close>

definition passes :: "obj \<Rightarrow> string \<times> (jsval \<Rightarrow> bool) option \<Rightarrow> bool" where
  "passes d kv = (case snd kv of None \<Rightarrow> True | Some p \<Rightarrow> p (property d (fst kv)))"

text \<open>A record passes every configured validator predicate.\<close>

definition valid :: "config \<Rightarrow> obj \<Rightarrow> bool" where
  "valid cfg d =
     (case collectionValidators cfg of
        None \<Rightarrow> True
      | Some validators \<Rightarrow> list_all (passes d) validators)"

text \<open>The field \<open>key\<close> of a record fails its validator.\<close>

definition fails :: "config \<Rightarrow> obj \<Rightarrow> string \<Rightarrow> bool" where
  "fails cfg d key =
     (case collectionValidators cfg of
        None \<Rightarrow> False
      | Some validators \<Rightarrow> list_ex (\<lambda>kv. fst kv = key \<and> \<not> passes d kv) validators)"

text \<open>An entry of an \<open>updateMany\<close> batch names an absent id, or its merge fails validation.\<close>

definition rejected :: "config \<Rightarrow> database \<Rightarrow> string \<times> obj \<Rightarrow> bool" where
  "rejected cfg db u =
     (case map_of (data db) (fst u) of
        None \<Rightarrow> True
      | Some existingData \<Rightarrow> \<not> valid cfg (spread existingData (snd u)))"

text \<open>The invariant of the collection: identifiers are unique and every record is valid.\<close>

definition invariant :: "config \<Rightarrow> database \<Rightarrow> bool" where
  "invariant cfg db =
     (distinct (map fst (data db)) \<and> list_all (\<lambda>entry. valid cfg (snd entry)) (data db))"

text \<open>The invariant, of the entries of the map alone.\<close>

definition well_formed :: "config \<Rightarrow> (string \<times> obj) list \<Rightarrow> bool" where
  "well_formed cfg m = (distinct (map fst m) \<and> list_all (\<lambda>entry. valid cfg (snd entry)) m)"

text \<open>
  What the first pass of \<open>updateMany\<close> has established of an entry: its id is in the
  map, and its properties merged into some record passed validation.
\<close>

definition applicable :: "config \<Rightarrow> (string \<times> obj) list \<Rightarrow> string \<times> obj \<Rightarrow> bool" where
  "applicable cfg m u = (has m (fst u) \<and> (\<exists>r0. valid cfg (spread r0 (snd u))))"

text \<open>
  A record that \<open>JSON.stringify\<close> writes whole: none of its properties holds
  \<open>undefined\<close>.
\<close>

definition storable :: "obj \<Rightarrow> bool" where
  "storable d = (Some Undefined \<notin> range d)"

text \<open>The in-memory collection matches the persisted state.\<close>

definition in_step :: "database \<Rightarrow> bool" where
  "in_step db = (case storage db of None \<Rightarrow> data db = [] | Some s \<Rightarrow> JSON_parse s = Some (data db))"

subsection \<open>A collection of users\<close>

text \<open>
  The validator of the README for the field \<open>age\<close>, \<open>(value) => value > 0\<close>, a host that
  stores every string and one that stores none, and a source of random digits that
  counts up.
\<close>

definition user :: "int \<Rightarrow> obj" where
  "user age = [''age'' \<mapsto> Num age]"

definition users :: config where
  "users = \<lparr>collectionName = ''users'',
            collectionValidators = Some [(''age'', Some (\<lambda>v. js_gt v (Num 0)))],
            random_digit = (\<lambda>n. of_nat n),
            host_accepts = (\<lambda>s. True)\<rparr>"

definition users_full_host :: config where
  "users_full_host = users\<lparr>host_accepts := (\<lambda>s. False)\<rparr>"

definition fresh :: database where
  "fresh = \<lparr>data = [], storage = None, draws = 0\<rparr>"

text \<open>The key by which \<open>{age: "desc"}\<close> sorts users: the greater age first.\<close>

definition age_key :: "obj \<Rightarrow> int" where
  "age_key d = (case property d ''age'' of Num n \<Rightarrow> - n | _ \<Rightarrow> 0)"

text \<open>The four users of the example, inserted in another order.\<close>

definition four_users :: database where
  "four_users =
     \<lparr>data = [(''00000000000000aa'', user 25), (''00000000000000bb'', user 30),
              (''00000000000000cc'', user 17), (''00000000000000dd'', user 20)],
      storage = None, draws = 64\<rparr>"

text \<open>A store of two users, in step with what the host holds.\<close>

definition two_users :: database where
  "two_users =
     \<lparr>data = [(''00000000000000aa'', user 30), (''00000000000000bb'', user 25)],
      storage = Some (JSON_stringify
                        [(''00000000000000aa'', user 30), (''00000000000000bb'', user 25)]),
      draws = 32\<rparr>"

text \<open>What the host holds when the second of two stored entries has an age of 0.\<close>

definition stored_with_invalid_entry :: serialized where
  "stored_with_invalid_entry =
     EntriesJSON [(''00000000000000aa'', [''age'' \<mapsto> JNum 30]),
                  (''00000000000000bb'', [''age'' \<mapsto> JNum 0])]"

text \<open>A host whose property has room for two entries and no more.\<close>

definition users_small_host :: config where
  "users_small_host =
     users\<lparr>host_accepts := (\<lambda>s. case s of EntriesJSON es \<Rightarrow> length es \<le> 2 | _ \<Rightarrow> True)\<rparr>"

text \<open>
  A store of one user whose property \<open>nick\<close> holds \<open>undefined\<close>: the store after
  \<open>create({age: 30, nick: undefined})\<close> on the new one.
\<close>

definition undecided :: database where
  "undecided =
     \<lparr>data = [(''0123456789abcdef'', [''age'' \<mapsto> Num 30, ''nick'' \<mapsto> Undefined])],
      storage = Some (JSON_stringify
                        [(''0123456789abcdef'', [''age'' \<mapsto> Num 30, ''nick'' \<mapsto> Undefined])]),
      draws = 16\<rparr>"

text \<open>Entries to import: three with one identifier twice, and three of three identifiers.\<close>

definition twice :: "(string \<times> jobject) list" where
  "twice = [(''00000000000000aa'', [''age'' \<mapsto> JNum 30]),
            (''00000000000000bb'', [''age'' \<mapsto> JNum 25]),
            (''00000000000000aa'', [''age'' \<mapsto> JNum 31])]"

definition three :: "(string \<times> jobject) list" where
  "three = [(''00000000000000aa'', [''age'' \<mapsto> JNum 30]),
            (''00000000000000bb'', [''age'' \<mapsto> JNum 25]),
            (''00000000000000cc'', [''age'' \<mapsto> JNum 40])]"

text \<open>A source of random digits that gives 0 every time.\<close>

definition users_stuck_random :: config where
  "users_stuck_random = users\<lparr>random_digit := (\<lambda>n. 0)\<rparr>"

text \<open>
  The host with room for two entries, with a source of random digits that repeats each
  digit 16 times, so that the identifiers drawn are \<open>0000000000000000\<close>,
  \<open>1111111111111111\<close> and so on; and a store whose one user has the first of them.
\<close>

definition users_repeated_digit :: config where
  "users_repeated_digit = users_small_host\<lparr>random_digit := (\<lambda>n. of_nat (n div 16))\<rparr>"

definition one_user :: database where
  "one_user =
     \<lparr>data = [(''0000000000000000'', user 25)],
      storage = Some (JSON_stringify [(''0000000000000000'', user 25)]),
      draws = 0\<rparr>"

section \<open>Validation\<close>

lemma validationErrors_filter:
  "validationErrors vs d = map fst (filter (\<lambda>kv. \<not> passes d kv) vs)"
  by (induction vs d rule: validationErrors.induct) (simp_all add: passes_def split: option.splits)

lemma validate_valid: "valid cfg d \<Longrightarrow> validate cfg d = Inr True"
  by (auto simp: valid_def validate_def validationErrors_filter filter_empty_conv list_all_iff
           split: option.splits)

lemma validate_Inr: "validate cfg d = Inr ok \<Longrightarrow> valid cfg d \<and> ok"
  by (auto simp: valid_def validate_def validationErrors_filter filter_empty_conv list_all_iff Let_def
           split: option.splits if_splits)

lemma validate_invalid:
  assumes "\<not> valid cfg d"
  shows "\<exists>fields. validate cfg d = Inl (DatabaseError VALIDATION_FAILED (ValidationErrors fields))
           \<and> (\<forall>key. key \<in> set fields \<longleftrightarrow> fails cfg d key)"
proof (cases "collectionValidators cfg")
  case None
  with assms show ?thesis by (simp add: valid_def)
next
  case (Some vs)
  with assms have "filter (\<lambda>kv. \<not> passes d kv) vs \<noteq> []"
    by (auto simp: valid_def filter_empty_conv list_all_iff)
  then have "validate cfg d =
      Inl (DatabaseError VALIDATION_FAILED (ValidationErrors (validationErrors vs d)))"
    using Some by (simp add: validate_def validationErrors_filter)
  moreover have "\<forall>key. key \<in> set (validationErrors vs d) \<longleftrightarrow> fails cfg d key"
    using Some by (auto simp: fails_def validationErrors_filter list_ex_iff)
  ultimately show ?thesis by blast
qed

lemma not_valid_iff: "\<not> valid cfg d \<longleftrightarrow> (\<exists>key. fails cfg d key)"
  by (auto simp: valid_def fails_def list_all_iff list_ex_iff split: option.splits)

lemma valid_user: "valid users (user age) \<longleftrightarrow> 0 < age"
  by (simp add: valid_def users_def passes_def property_def user_def js_gt_def)

lemma valid_user_small_host: "valid users_small_host (user age) \<longleftrightarrow> 0 < age"
  by (simp add: valid_def users_small_host_def users_def passes_def property_def user_def js_gt_def)

lemma valid_user_full_host: "valid users_full_host (user age) \<longleftrightarrow> 0 < age"
  by (simp add: valid_def users_full_host_def users_def passes_def property_def user_def js_gt_def)

section \<open>\<open>create\<close> on a record that fails validation\<close>

text \<open>
  C8. For every record that fails at least one validator predicate, \<open>create\<close> raises
  a \<open>VALIDATION_FAILED\<close> error whose details list the failing fields, all of them and
  no other, and the store is left as it was.
\<close>

theorem create_invalid:
  assumes "\<not> valid cfg d"
  shows "\<exists>fields. create cfg d db = (Inl (DatabaseError VALIDATION_FAILED (ValidationErrors fields)), db)
           \<and> (\<forall>key. key \<in> set fields \<longleftrightarrow> fails cfg d key)"
proof -
  from validate_invalid [OF assms] obtain fields where
    v: "validate cfg d = Inl (DatabaseError VALIDATION_FAILED (ValidationErrors fields))"
    and f: "\<forall>key. key \<in> set fields \<longleftrightarrow> fails cfg d key"
    by blast
  from v have "create cfg d db = (Inl (DatabaseError VALIDATION_FAILED (ValidationErrors fields)), db)"
    by (simp add: create_def)
  with f show ?thesis by blast
qed

theorem create_invalid_witness:
  "\<not> valid users (user 0) \<and>
   (\<exists>fields. create users (user 0) fresh =
        (Inl (DatabaseError VALIDATION_FAILED (ValidationErrors fields)), fresh)
      \<and> (\<forall>key. key \<in> set fields \<longleftrightarrow> fails users (user 0) key))"
proof -
  have h: "\<not> valid users (user 0)" by (simp add: valid_user)
  from create_invalid [OF h, of fresh] h show ?thesis by blast
qed

section \<open>\<open>createMany\<close> with an invalid record\<close>

lemma validate_items_invalid:
  "\<exists>item \<in> set items. \<not> valid cfg item \<Longrightarrow>
     \<exists>i item e. validate_items cfg items index = Inl (DatabaseError VALIDATION_FAILED (ItemDetails i item e))"
proof (induction items arbitrary: index)
  case Nil
  then show ?case by simp
next
  case (Cons item items)
  show ?case
  proof (cases "validate cfg item")
    case (Inl e)
    then show ?thesis by simp
  next
    case (Inr ok)
    then have "valid cfg item" by (simp add: validate_Inr)
    with Cons.prems have "\<exists>item \<in> set items. \<not> valid cfg item" by auto
    from Cons.IH [OF this, of "index + 1"] Inr show ?thesis by simp
  qed
qed

text \<open>
  C2. When some record of the batch fails a validator predicate, \<open>createMany\<close> raises a
  \<open>VALIDATION_FAILED\<close> error and the store is exactly as before the call: no record of
  the batch is inserted.
\<close>

theorem createMany_invalid:
  assumes "\<exists>item \<in> set items. \<not> valid cfg item"
  shows "\<exists>details. createMany cfg items db = (Inl (DatabaseError VALIDATION_FAILED details), db)"
proof -
  from validate_items_invalid [OF assms, of 0] obtain i item e where
    "validate_items cfg items 0 = Inl (DatabaseError VALIDATION_FAILED (ItemDetails i item e))"
    by blast
  then show ?thesis by (simp add: createMany_def)
qed

theorem createMany_invalid_witness:
  "\<not> valid users (user 0) \<and>
   (\<exists>details. createMany users [user 30, user 0, user 25] fresh =
      (Inl (DatabaseError VALIDATION_FAILED details), fresh))"
proof -
  have h: "\<exists>item \<in> set [user 30, user 0, user 25]. \<not> valid users item"
    by (simp add: valid_user)
  from createMany_invalid [OF h, of fresh] show ?thesis by (simp add: valid_user)
qed

section \<open>\<open>updateMany\<close> with a rejected entry\<close>

lemma validate_updates_rejected:
  "list_ex (rejected cfg db) updates \<Longrightarrow>
     \<exists>e. validate_updates cfg (data db) updates index = Inl e
        \<and> (error_type e = DOCUMENT_NOT_FOUND \<or> error_type e = VALIDATION_FAILED)"
proof (induction updates arbitrary: index)
  case Nil
  then show ?case by simp
next
  case (Cons u updates)
  obtain ident d where u: "u = (ident, d)" by (cases u)
  show ?case
  proof (cases "rejected cfg db u")
    case True
    then show ?thesis
      using u by (auto simp: rejected_def split: option.splits sum.splits dest: validate_Inr)
  next
    case False
    with Cons.prems have "list_ex (rejected cfg db) updates" by simp
    from Cons.IH [OF this, of "index + 1"] show ?thesis
      using u by (auto split: option.splits sum.splits)
  qed
qed

text \<open>
  C3. When some entry of the batch names an absent id or merges into a record that
  fails validation, \<open>updateMany\<close> raises an error (\<open>DOCUMENT_NOT_FOUND\<close> or
  \<open>VALIDATION_FAILED\<close>) and the whole store is exactly as before the call: no entry of
  the batch is applied.
\<close>

theorem updateMany_invalid:
  assumes "list_ex (rejected cfg db) updates"
  shows "\<exists>e. updateMany cfg updates db = (Inl e, db)
           \<and> (error_type e = DOCUMENT_NOT_FOUND \<or> error_type e = VALIDATION_FAILED)"
proof -
  from validate_updates_rejected [OF assms, of 0] obtain e where
    "validate_updates cfg (data db) updates 0 = Inl e"
    "error_type e = DOCUMENT_NOT_FOUND \<or> error_type e = VALIDATION_FAILED"
    by blast
  then show ?thesis by (simp add: updateMany_def)
qed

theorem updateMany_invalid_witness:
  "list_ex (rejected users two_users)
     [(''00000000000000aa'', user 40), (''00000000000000bb'', user 0)] \<and>
   (\<exists>e. updateMany users [(''00000000000000aa'', user 40), (''00000000000000bb'', user 0)] two_users
          = (Inl e, two_users)
      \<and> (error_type e = DOCUMENT_NOT_FOUND \<or> error_type e = VALIDATION_FAILED))"
proof -
  have "spread (user 25) (user 0) = user 0"
    by (simp add: spread_def user_def)
  then have h: "list_ex (rejected users two_users)
     [(''00000000000000aa'', user 40), (''00000000000000bb'', user 0)]"
    by (simp add: rejected_def two_users_def valid_user)
  from updateMany_invalid [OF h] h show ?thesis by blast
qed

section \<open>\<open>create\<close> and \<open>findById\<close>\<close>

lemma random_id_users: "random_id users 0 = ''0123456789abcdef''"
  by code_simp

lemma random_id_users_full_host: "random_id users_full_host 0 = ''0123456789abcdef''"
  by code_simp

lemma generateId_loop_Inr:
  "generateId_loop cfg m a n = Inr (ident, n') \<Longrightarrow> \<not> has m ident"
proof (induction cfg m a n rule: generateId_loop.induct)
  case (1 cfg m attempts n)
  then show ?case
    by (simp split: if_splits add: Let_def)
qed

text \<open>The loop returns an identifier as soon as one of the attempts left draws an unused one.\<close>

lemma generateId_loop_fresh:
  "a + k < maxAttempts \<Longrightarrow> \<not> has m (random_id cfg (n + 16 * k)) \<Longrightarrow>
     \<exists>ident n'. generateId_loop cfg m a n = Inr (ident, n')"
proof (induction k arbitrary: a n)
  case 0
  then show ?case by (simp add: Let_def)
next
  case (Suc k)
  have "a + 1 + k < maxAttempts" using Suc.prems(1) by simp
  moreover have "\<not> has m (random_id cfg (n + 16 + 16 * k))"
    using Suc.prems(2) by (simp add: algebra_simps)
  ultimately obtain ident n' where "generateId_loop cfg m (a + 1) (n + 16) = Inr (ident, n')"
    using Suc.IH [of "a + 1" "n + 16"] by blast
  moreover have "a < maxAttempts" using Suc.prems(1) by simp
  ultimately show ?case
    by (subst generateId_loop.simps) (simp add: Let_def)
qed

lemma generateId_data:
  "generateId cfg db = (res, db1) \<Longrightarrow> data db1 = data db \<and> storage db1 = storage db"
  by (auto simp: generateId_def simp del: generateId_loop.simps split: sum.splits prod.splits)

lemma generateId_Inr:
  "generateId cfg db = (Inr ident, db1) \<Longrightarrow> \<not> has (data db) ident"
  by (auto simp: generateId_def simp del: generateId_loop.simps
           split: sum.splits prod.splits dest: generateId_loop_Inr)

lemma generateId_fresh:
  "k < maxAttempts \<Longrightarrow> \<not> has (data db) (random_id cfg (draws db + 16 * k)) \<Longrightarrow>
     \<exists>ident db1. generateId cfg db = (Inr ident, db1)"
  using generateId_loop_fresh [of 0 k "data db" cfg "draws db"]
  by (auto simp: generateId_def simp del: generateId_loop.simps)

lemma create_Inr:
  assumes "create cfg d db = (Inr ident, db')"
  shows "data db' = AList.update ident d (data db) \<and> \<not> has (data db) ident
           \<and> storage db' = Some (JSON_stringify (data db'))"
  using assms
  by (auto simp: create_def saveChanges_def Let_def
           split: sum.splits prod.splits if_splits dest: generateId_data generateId_Inr)

lemma findById_update:
  "data db' = AList.update ident d m \<Longrightarrow> findById db' ident = Inr (ident, d)"
  by (simp add: findById_def update_conv')

text \<open>Whenever \<open>create\<close> returns an identifier, \<open>findById\<close> finds the record under it.\<close>

lemma create_Inr_findById:
  "create cfg d db = (Inr ident, db') \<Longrightarrow> findById db' ident = Inr (ident, d)"
  by (auto dest: create_Inr intro: findById_update)

text \<open>The loop gives up when each of the attempts left draws an identifier in use.\<close>

lemma generateId_loop_exhausted:
  "(\<And>k. a + k < maxAttempts \<Longrightarrow> has m (random_id cfg (n + 16 * k))) \<Longrightarrow>
     generateId_loop cfg m a n = Inl (DatabaseError DUPLICATE_KEY (AttemptsDetails maxAttempts))"
proof (induction cfg m a n rule: generateId_loop.induct)
  case (1 cfg m attempts n)
  show ?case
  proof (cases "attempts \<ge> maxAttempts")
    case True
    then show ?thesis by simp
  next
    case False
    then have h: "has m (random_id cfg n)" using "1.prems" [of 0] by simp
    have "generateId_loop cfg m (attempts + 1) (n + 16) =
            Inl (DatabaseError DUPLICATE_KEY (AttemptsDetails maxAttempts))"
    proof (rule "1.IH" [OF False refl h])
      fix k
      assume "attempts + 1 + k < maxAttempts"
      then have "has m (random_id cfg (n + 16 * (k + 1)))" using "1.prems" [of "k + 1"] by simp
      then show "has m (random_id cfg (n + 16 + 16 * k))" by (simp add: algebra_simps)
    qed
    with False h show ?thesis
      by (subst generateId_loop.simps) (simp add: Let_def)
  qed
qed

lemma saveChanges_cases:
  "saveChanges cfg db = (Inr (), db\<lparr>storage := Some (JSON_stringify (data db))\<rparr>) \<or>
   saveChanges cfg db = (Inl (DatabaseError STORAGE_WRITE_ERROR OriginalError), db)"
  by (simp add: saveChanges_def Let_def)

lemma generateId_cases:
  "(\<exists>ident db1. generateId cfg db = (Inr ident, db1)) \<or>
   (\<exists>db1. generateId cfg db = (Inl (DatabaseError DUPLICATE_KEY (AttemptsDetails maxAttempts)), db1))"
proof (cases "\<exists>k < maxAttempts. \<not> has (data db) (random_id cfg (draws db + 16 * k))")
  case True
  then show ?thesis using generateId_fresh by blast
next
  case False
  then have "generateId_loop cfg (data db) 0 (draws db) =
      Inl (DatabaseError DUPLICATE_KEY (AttemptsDetails maxAttempts))"
    by (intro generateId_loop_exhausted) auto
  then show ?thesis by (simp add: generateId_def del: generateId_loop.simps)
qed

text \<open>On a valid record \<open>create\<close> returns an identifier or raises one of two errors.\<close>

lemma create_valid_cases:
  assumes "valid cfg d"
  shows "(\<exists>ident. fst (create cfg d db) = Inr ident)
       \<or> fst (create cfg d db) = Inl (DatabaseError DUPLICATE_KEY (AttemptsDetails maxAttempts))
       \<or> fst (create cfg d db) = Inl (DatabaseError STORAGE_WRITE_ERROR OriginalError)"
proof -
  from generateId_cases [of cfg db] show ?thesis
  proof
    assume "\<exists>ident db1. generateId cfg db = (Inr ident, db1)"
    then obtain ident db1 where g: "generateId cfg db = (Inr ident, db1)" by blast
    from saveChanges_cases [of cfg "db1\<lparr>data := AList.update ident d (data db1)\<rparr>"]
    show ?thesis
      using assms g by (auto simp: create_def validate_valid)
  next
    assume "\<exists>db1. generateId cfg db =
              (Inl (DatabaseError DUPLICATE_KEY (AttemptsDetails maxAttempts)), db1)"
    then show ?thesis
      using assms by (auto simp: create_def validate_valid)
  qed
qed


text \<open>
  The identifier that \<open>generateId\<close> returns is the first one drawn that is not in use.
\<close>

lemma generateId_loop_first:
  "a + k < maxAttempts \<Longrightarrow> \<not> has m (random_id cfg (n + 16 * k)) \<Longrightarrow>
   (\<And>j. j < k \<Longrightarrow> has m (random_id cfg (n + 16 * j))) \<Longrightarrow>
     generateId_loop cfg m a n = Inr (random_id cfg (n + 16 * k), n + 16 * k + 16)"
proof (induction k arbitrary: a n)
  case 0
  then show ?case by (simp add: Let_def)
next
  case (Suc k)
  have 1: "a + 1 + k < maxAttempts" using Suc.prems(1) by simp
  have 2: "\<not> has m (random_id cfg (n + 16 + 16 * k))"
    using Suc.prems(2) by (simp add: algebra_simps)
  have 3: "has m (random_id cfg (n + 16 + 16 * j))" if "j < k" for j
    using Suc.prems(3) [of "Suc j"] that by (simp add: algebra_simps)
  have "generateId_loop cfg m (a + 1) (n + 16) =
          Inr (random_id cfg (n + 16 + 16 * k), n + 16 + 16 * k + 16)"
    using 1 2 3 by (rule Suc.IH)
  moreover have "a < maxAttempts" using Suc.prems(1) by simp
  moreover have "has m (random_id cfg n)" using Suc.prems(3) [of 0] by simp
  ultimately show ?case
    by (subst generateId_loop.simps) (simp add: Let_def algebra_simps)
qed

lemma generateId_first:
  assumes "k < maxAttempts"
    and "\<not> has (data db) (random_id cfg (draws db + 16 * k))"
    and "\<forall>j<k. has (data db) (random_id cfg (draws db + 16 * j))"
  shows "generateId cfg db =
           (Inr (random_id cfg (draws db + 16 * k)), db\<lparr>draws := draws db + 16 * k + 16\<rparr>)"
proof -
  have "generateId_loop cfg (data db) 0 (draws db) =
          Inr (random_id cfg (draws db + 16 * k), draws db + 16 * k + 16)"
    using assms by (intro generateId_loop_first) auto
  then show ?thesis by (simp add: generateId_def del: generateId_loop.simps)
qed

lemma random_id_repeated_0: "random_id users_repeated_digit 0 = ''0000000000000000''"
  by code_simp

lemma random_id_repeated_1: "random_id users_repeated_digit 16 = ''1111111111111111''"
  by code_simp

lemma valid_user_repeated_digit: "valid users_repeated_digit (user age) \<longleftrightarrow> 0 < age"
  by (simp add: valid_def users_repeated_digit_def users_small_host_def users_def passes_def
                property_def user_def js_gt_def)

text \<open>
  C1, as stated, fails: a record that passes every validator is not enough for
  \<open>create\<close> to succeed. When the host refuses the string, \<open>create\<close> raises
  \<open>STORAGE_WRITE_ERROR\<close> (and the record stays in memory, unsaved).
\<close>

theorem create_valid_counterexample:
  "valid users_full_host (user 30) \<and>
   create users_full_host (user 30) fresh =
     (Inl (DatabaseError STORAGE_WRITE_ERROR OriginalError),
      \<lparr>data = [(''0123456789abcdef'', user 30)], storage = None, draws = 16\<rparr>)"
proof -
  have "generateId users_full_host fresh = (Inr ''0123456789abcdef'', fresh\<lparr>draws := 16\<rparr>)"
    by (simp add: generateId_def fresh_def has_def Let_def maxAttempts_def
                  random_id_users_full_host)
  then show ?thesis
    by (simp add: create_def valid_user_full_host validate_valid saveChanges_def fresh_def)
       (simp add: users_full_host_def)
qed

text \<open>
  C1, amended. For every record that passes every validator predicate: when one of
  the 100 identifiers that \<open>generateId\<close> draws is not in use, and the host stores the
  string that \<open>saveChanges\<close> writes (the collection with the record under the first
  identifier drawn that is not in use), \<open>create\<close> returns that identifier, and \<open>findById\<close>
  of it right after returns the pair of the identifier and the record.
\<close>

theorem create_findById:
  assumes "valid cfg d"
    and "k < maxAttempts"
    and "\<not> has (data db) (random_id cfg (draws db + 16 * k))"
    and "\<forall>j<k. has (data db) (random_id cfg (draws db + 16 * j))"
    and "host_accepts cfg
           (JSON_stringify (AList.update (random_id cfg (draws db + 16 * k)) d (data db)))"
  shows "\<exists>db'. create cfg d db = (Inr (random_id cfg (draws db + 16 * k)), db')
           \<and> findById db' (random_id cfg (draws db + 16 * k))
               = Inr (random_id cfg (draws db + 16 * k), d)"
proof -
  let ?ident = "random_id cfg (draws db + 16 * k)"
  have g: "generateId cfg db = (Inr ?ident, db\<lparr>draws := draws db + 16 * k + 16\<rparr>)"
    using assms(2,3,4) by (rule generateId_first)
  have "create cfg d db =
      (Inr ?ident, db\<lparr>draws := draws db + 16 * k + 16,
                      data := AList.update ?ident d (data db),
                      storage := Some (JSON_stringify (AList.update ?ident d (data db)))\<rparr>)"
    using assms(1,5) g by (simp add: create_def validate_valid saveChanges_def)
  then show ?thesis
    by (auto intro: findById_update)
qed

text \<open>
  On the host with room for two entries, which refuses longer lists, with the first
  identifier drawn in use.
\<close>

theorem create_findById_witness:
  "valid users_repeated_digit (user 30)
   \<and> has (data one_user) (random_id users_repeated_digit 0)
   \<and> \<not> host_accepts users_repeated_digit (JSON_stringify (data four_users))
   \<and> (\<exists>db'. create users_repeated_digit (user 30) one_user = (Inr ''1111111111111111'', db')
          \<and> findById db' ''1111111111111111'' = Inr (''1111111111111111'', user 30))"
proof -
  have v: "valid users_repeated_digit (user 30)" by (simp add: valid_user_repeated_digit)
  have k: "(1::nat) < maxAttempts" by (simp add: maxAttempts_def)
  have f: "\<not> has (data one_user) (random_id users_repeated_digit (draws one_user + 16 * 1))"
    by (simp add: one_user_def has_def random_id_repeated_1)
  have t: "has (data one_user) (random_id users_repeated_digit 0)"
    by (simp add: one_user_def has_def random_id_repeated_0)
  then have c: "\<forall>j<1. has (data one_user) (random_id users_repeated_digit (draws one_user + 16 * j))"
    by (simp add: one_user_def)
  have h: "host_accepts users_repeated_digit
             (JSON_stringify (AList.update (random_id users_repeated_digit (draws one_user + 16 * 1))
                (user 30) (data one_user)))"
    by (simp add: one_user_def random_id_repeated_1 users_repeated_digit_def users_small_host_def
                  JSON_stringify_def)
  have n: "\<not> host_accepts users_repeated_digit (JSON_stringify (data four_users))"
    by (simp add: users_repeated_digit_def users_small_host_def JSON_stringify_def four_users_def)
  from create_findById [OF v k f c h] v t n show ?thesis
    by (simp add: one_user_def random_id_repeated_1)
qed

section \<open>\<open>query\<close>\<close>

text \<open>
  The example of the specification by evaluation: the four records inserted in the
  order in which it lists them, under any identifiers.
\<close>

lemma query_age:
  "query \<lparr>data = [(a, user 17), (b, user 20), (c, user 30), (d, user 25)], storage = s, draws = n\<rparr>
     [FilterCondition ''age'' Gt (Num 18)] (Some [(''age'', Desc)]) (Some 2)
   = Inr [(c, user 30), (d, user 25)]"
  by (simp add: query_def sort_by_def property_def js_gt_def js_lt_def user_def)

text \<open>On users, the comparator of \<open>{age: "desc"}\<close> sorts by the negated age.\<close>

lemma age_key_user: "age_key (user n) = - n"
  by (simp add: age_key_def user_def property_def)

lemma filter_entries_age:
  "filter_entries [FilterCondition ''age'' Gt (Num 18)] m =
     Inr (filter (\<lambda>entry. js_gt (property (snd entry) ''age'') (Num 18)) m)"
  by (induction m) auto

lemma compare_user:
  "compare_by [(''age'', Desc)] (user x) (user y) \<le> 0 \<longleftrightarrow> age_key (user x) \<le> age_key (user y)"
  unfolding age_key_user by (auto simp: user_def property_def js_lt_def Let_def)

lemma insert_by_insort:
  assumes "\<forall>entry \<in> set (x # ys). \<exists>n. snd entry = user n"
  shows "insert_by (\<lambda>(_, a) (_, b). compare_by [(''age'', Desc)] a b) x ys
           = insort_key (\<lambda>entry. age_key (snd entry)) x ys"
  using assms
proof (induction ys)
  case Nil
  then show ?case by simp
next
  case (Cons y ys)
  obtain i n where x: "x = (i, user n)" using Cons.prems by (cases x) auto
  obtain j k where y: "y = (j, user k)" using Cons.prems by (cases y) auto
  have "insert_by (\<lambda>(_, a) (_, b). compare_by [(''age'', Desc)] a b) x ys
           = insort_key (\<lambda>entry. age_key (snd entry)) x ys"
    using Cons by simp
  then show ?case
    using x y compare_user [of n k] by (simp del: compare_by.simps)
qed

lemma sort_by_sort_key:
  assumes "\<forall>entry \<in> set xs. \<exists>n. snd entry = user n"
  shows "sort_by (\<lambda>(_, a) (_, b). compare_by [(''age'', Desc)] a b) xs
           = sort_key (\<lambda>entry. age_key (snd entry)) xs"
  using assms
proof (induction xs)
  case Nil
  then show ?case by (simp add: sort_by_def)
next
  case (Cons x xs)
  then have IH: "sort_by (\<lambda>(_, a) (_, b). compare_by [(''age'', Desc)] a b) xs
           = sort_key (\<lambda>entry. age_key (snd entry)) xs" by simp
  have "\<forall>entry \<in> set (x # sort_key (\<lambda>entry. age_key (snd entry)) xs). \<exists>n. snd entry = user n"
    using Cons.prems by simp
  from insert_by_insort [OF this] IH show ?case
    by (simp add: sort_by_def sort_key_def)
qed

lemma sorted_three:
  assumes "mset R = {#user 20, user 30, user 25#}" and "sorted (map age_key R)"
  shows "R = [user 30, user 25, user 20]"
proof -
  have "mset (map age_key R) = image_mset age_key (mset R)" by simp
  also have "\<dots> = mset [- 20, - 30, - 25]" by (simp add: assms(1) age_key_user)
  finally have "sort [- 20, - 30, - 25] = map age_key R"
    using assms(2) by (rule properties_for_sort)
  then have k: "map age_key R = [- 30, - 25, - 20]" by simp
  then have "length (map age_key R) = 3" by simp
  then obtain a b c where R: "R = [a, b, c]"
    by (auto simp: numeral_3_eq_3 length_Suc_conv)
  have "set R = set_mset (mset R)" by simp
  also have "\<dots> = {user 20, user 30, user 25}" by (simp add: assms(1))
  finally have "a \<in> {user 20, user 30, user 25}" "b \<in> {user 20, user 30, user 25}"
    "c \<in> {user 20, user 30, user 25}" using R by auto
  with R k show ?thesis
    by (auto simp: age_key_user)
qed

lemma mset_filter_snd:
  "mset (map snd (filter (\<lambda>entry. Q (snd entry)) m)) = filter_mset Q (mset (map snd m))"
  by (induction m) simp_all


text \<open>
  C7. On a collection holding exactly the records \<open>{age:17}\<close>, \<open>{age:20}\<close>, \<open>{age:30}\<close>,
  \<open>{age:25}\<close>, under whatever identifiers and in whatever order of insertion, \<open>query\<close>
  with the one condition \<open>age > 18\<close>, the sort \<open>{age: "desc"}\<close> and the limit 2 returns
  exactly two entries of the collection: the record \<open>{age:30}\<close>, then the record
  \<open>{age:25}\<close>.
\<close>

theorem query_age_any_order:
  assumes "mset (map snd (data db)) = {#user 17, user 20, user 30, user 25#}"
  shows "\<exists>a b. query db [FilterCondition ''age'' Gt (Num 18)] (Some [(''age'', Desc)]) (Some 2)
           = Inr [(a, user 30), (b, user 25)]
           \<and> (a, user 30) \<in> set (data db) \<and> (b, user 25) \<in> set (data db)"
proof -
  let ?Q = "\<lambda>d. js_gt (property d ''age'') (Num 18)"
  let ?F = "filter (\<lambda>entry. ?Q (snd entry)) (data db)"
  let ?L = "sort_key (\<lambda>entry. age_key (snd entry)) ?F"
  have u: "\<forall>entry \<in> set ?F. \<exists>n. snd entry = user n"
  proof
    fix entry assume "entry \<in> set ?F"
    then have "snd entry \<in> set (map snd (data db))" by auto
    then have "snd entry \<in># mset (map snd (data db))" by (simp only: set_mset_mset)
    then show "\<exists>n. snd entry = user n" unfolding assms by auto
  qed
  have "mset (map snd ?F) = filter_mset ?Q {#user 17, user 20, user 30, user 25#}"
    using mset_filter_snd [of ?Q "data db"] by (simp only: assms)
  also have "\<dots> = {#user 20, user 30, user 25#}"
    by (simp add: user_def property_def js_gt_def)
  finally have f: "mset (map snd ?F) = {#user 20, user 30, user 25#}" .
  have "mset (map snd ?L) = image_mset snd (mset ?L)" by simp
  also have "\<dots> = image_mset snd (mset ?F)" by (simp only: mset_sort)
  also have "\<dots> = {#user 20, user 30, user 25#}" using f by simp
  finally have m: "mset (map snd ?L) = {#user 20, user 30, user 25#}" .
  have "sorted (map (\<lambda>entry. age_key (snd entry)) ?L)" by (rule sorted_sort_key)
  then have "sorted (map age_key (map snd ?L))" by (simp add: comp_def)
  with m have "map snd ?L = [user 30, user 25, user 20]" by (rule sorted_three)
  then obtain a b c where L: "?L = [(a, user 30), (b, user 25), (c, user 20)]"
    by (auto simp: map_eq_Cons_conv)
  have "sort_by (\<lambda>(_, a) (_, b). compare_by [(''age'', Desc)] a b) ?F = ?L"
    using u by (rule sort_by_sort_key)
  moreover have "set ?L \<subseteq> set (data db)" by auto
  with L have "(a, user 30) \<in> set (data db)" "(b, user 25) \<in> set (data db)" by auto
  ultimately show ?thesis
    using L by (simp add: query_def filter_entries_age del: compare_by.simps)
qed


theorem query_age_any_order_witness:
  "mset (map snd (data four_users)) = {#user 17, user 20, user 30, user 25#}
   \<and> (\<exists>a b. query four_users [FilterCondition ''age'' Gt (Num 18)] (Some [(''age'', Desc)]) (Some 2)
           = Inr [(a, user 30), (b, user 25)]
           \<and> (a, user 30) \<in> set (data four_users) \<and> (b, user 25) \<in> set (data four_users))"
proof -
  have h: "mset (map snd (data four_users)) = {#user 17, user 20, user 30, user 25#}"
    by (simp add: four_users_def)
  from query_age_any_order [OF h] h show ?thesis by blast
qed

section \<open>Construction over a stored entry that fails validation\<close>

lemma parse_object_user: "parse_object [''age'' \<mapsto> JNum age] = user age"
  by (rule ext) (simp add: parse_object_def user_def)





section \<open>The invariant of the collection\<close>

lemma invariant_well_formed: "invariant cfg db = well_formed cfg (data db)"
  by (simp add: invariant_def well_formed_def)

lemma set_update_subset: "set (AList.update k v m) \<subseteq> insert (k, v) (set m)"
  by (induction m) auto

lemma well_formed_Nil: "well_formed cfg []"
  by (simp add: well_formed_def)

lemma well_formed_update:
  "well_formed cfg m \<Longrightarrow> valid cfg d \<Longrightarrow> well_formed cfg (AList.update k d m)"
  using set_update_subset [of k d m]
  by (auto simp: well_formed_def distinct_update list_all_iff)

lemma set_delete_subset: "set (AList.delete k m) \<subseteq> set m"
  by (auto simp: AList.delete_eq)

lemma well_formed_delete: "well_formed cfg m \<Longrightarrow> well_formed cfg (AList.delete k m)"
  using set_delete_subset [of k m]
  by (auto simp: well_formed_def distinct_delete list_all_iff)

lemma well_formed_map_of: "well_formed cfg m \<Longrightarrow> map_of m k = Some d \<Longrightarrow> valid cfg d"
  by (auto simp: well_formed_def list_all_iff dest: map_of_SomeD)

lemma saveChanges_data: "data (snd (saveChanges cfg db)) = data db"
  by (simp add: saveChanges_def Let_def)

lemma generateId_data_snd: "data (snd (generateId cfg db)) = data db"
  by (cases "generateId cfg db") (simp add: generateId_data)

lemma clear_invariant: "invariant cfg (snd (clear cfg db))"
  by (simp add: invariant_well_formed clear_def saveChanges_data well_formed_Nil)

lemma create_invariant:
  assumes "invariant cfg db"
  shows "invariant cfg (snd (create cfg d db))"
proof (cases "validate cfg d")
  case (Inl e)
  with assms show ?thesis by (simp add: create_def)
next
  case (Inr ok)
  then have v: "valid cfg d" by (simp add: validate_Inr)
  obtain res db1 where g: "generateId cfg db = (res, db1)" by (cases "generateId cfg db")
  then have d1: "data db1 = data db" by (simp add: generateId_data)
  show ?thesis
  proof (cases res)
    case (Inl e)
    with assms Inr g d1 show ?thesis by (simp add: create_def invariant_well_formed)
  next
    case (Inr ident)
    have "data (snd (create cfg d db)) = AList.update ident d (data db)"
      using \<open>validate cfg d = Inr ok\<close> g Inr d1
      by (simp add: create_def saveChanges_def Let_def)
    with assms v show ?thesis by (simp add: invariant_well_formed well_formed_update)
  qed
qed

lemma validate_items_Inr:
  "validate_items cfg items index = Inr u \<Longrightarrow> list_all (valid cfg) items"
  by (induction items arbitrary: index) (auto split: sum.splits dest: validate_Inr)

lemma create_items_well_formed:
  "well_formed cfg (data db) \<Longrightarrow> list_all (valid cfg) items \<Longrightarrow>
     well_formed cfg (data (snd (create_items cfg items ids db)))"
proof (induction items arbitrary: ids db)
  case Nil
  then show ?case by simp
next
  case (Cons item items)
  obtain res db1 where g: "generateId cfg db = (res, db1)" by (cases "generateId cfg db")
  then have d1: "data db1 = data db" by (simp add: generateId_data)
  show ?case
  proof (cases res)
    case (Inl e)
    with Cons.prems g d1 show ?thesis by simp
  next
    case (Inr ident)
    have "well_formed cfg (data (db1\<lparr>data := AList.update ident item (data db1)\<rparr>))"
      using Cons.prems d1 by (simp add: well_formed_update)
    from Cons.IH [OF this] Cons.prems(2) g Inr show ?thesis by simp
  qed
qed

lemma createMany_invariant:
  assumes "invariant cfg db"
  shows "invariant cfg (snd (createMany cfg items db))"
proof (cases "validate_items cfg items 0")
  case (Inl e)
  with assms show ?thesis by (simp add: createMany_def)
next
  case (Inr u)
  then have "list_all (valid cfg) items" by (rule validate_items_Inr)
  with assms have w: "well_formed cfg (data (snd (create_items cfg items [] db)))"
    by (simp add: invariant_well_formed create_items_well_formed)
  obtain res db1 where c: "create_items cfg items [] db = (res, db1)"
    by (cases "create_items cfg items [] db")
  with w have "well_formed cfg (data db1)" by simp
  then have "well_formed cfg (data (snd (saveChanges cfg db1)))" by (simp add: saveChanges_data)
  with Inr c \<open>well_formed cfg (data db1)\<close> show ?thesis
    by (auto simp: createMany_def invariant_well_formed split: sum.splits prod.splits)
qed

lemma update_invariant:
  assumes "invariant cfg db"
  shows "invariant cfg (snd (update cfg ident d db))"
  using assms
  by (auto simp: update_def invariant_well_formed saveChanges_data well_formed_update Let_def
           split: option.splits sum.splits dest: validate_Inr)

lemma delete_invariant:
  assumes "invariant cfg db"
  shows "invariant cfg (snd (delete cfg ident db))"
  using assms
  by (simp add: delete_def invariant_well_formed saveChanges_data well_formed_delete)

lemma well_formed_fold_delete:
  "well_formed cfg m \<Longrightarrow> well_formed cfg (fold AList.delete ids m)"
  by (induction ids arbitrary: m) (simp_all add: well_formed_delete)

lemma deleteMany_invariant:
  assumes "invariant cfg db"
  shows "invariant cfg (snd (deleteMany cfg ids db))"
proof -
  have "well_formed cfg (data (snd (saveChanges cfg (db\<lparr>data := fold AList.delete ids (data db)\<rparr>))))"
    using assms by (simp add: saveChanges_data invariant_well_formed well_formed_fold_delete)
  with assms show ?thesis
    by (auto simp: deleteMany_def invariant_well_formed Let_def split: sum.splits prod.splits)
qed

text \<open>
  A validator looks at one field. So a merge is valid when the record merged into is
  valid and the same properties, merged into some other record, passed validation:
  this is what makes the second pass of \<open>updateMany\<close> safe when an id occurs twice.
\<close>

lemma passes_spread:
  assumes "passes (spread r0 d) kv" and "passes rc kv"
  shows "passes (spread rc d) kv"
proof (cases "d (fst kv)")
  case None
  then have "property (spread rc d) (fst kv) = property rc (fst kv)"
    by (simp add: property_def spread_def map_add_def)
  with assms(2) show ?thesis by (cases "snd kv") (simp_all add: passes_def)
next
  case (Some v)
  then have "property (spread rc d) (fst kv) = property (spread r0 d) (fst kv)"
    by (simp add: property_def spread_def map_add_def)
  with assms(1) show ?thesis by (cases "snd kv") (simp_all add: passes_def)
qed

lemma valid_spread:
  "valid cfg (spread r0 d) \<Longrightarrow> valid cfg rc \<Longrightarrow> valid cfg (spread rc d)"
  by (auto simp: valid_def list_all_iff split: option.splits intro: passes_spread)

lemma validate_updates_Inr:
  "validate_updates cfg m updates index = Inr u \<Longrightarrow> list_all (applicable cfg m) updates"
proof (induction updates arbitrary: index)
  case Nil
  then show ?case by simp
next
  case (Cons x updates)
  obtain ident d where x: "x = (ident, d)" by (cases x)
  from Cons.prems x obtain r0 ok where
    "map_of m ident = Some r0" "validate cfg (spread r0 d) = Inr ok"
    "validate_updates cfg m updates (index + 1) = Inr u"
    by (auto split: option.splits sum.splits)
  then show ?case
    using x Cons.IH by (auto simp: applicable_def has_def dest: validate_Inr)
qed

lemma has_update: "has (AList.update k v m) k' = (k' = k \<or> has m k')"
  by (auto simp: has_def update_conv')

lemma apply_updates_well_formed:
  "well_formed cfg m \<Longrightarrow> list_all (applicable cfg m) updates \<Longrightarrow>
     well_formed cfg (apply_updates m updates)"
proof (induction updates arbitrary: m)
  case Nil
  then show ?case by simp
next
  case (Cons x updates)
  obtain ident d where x: "x = (ident, d)" by (cases x)
  from Cons.prems(2) x obtain rc r0 where
    rc: "map_of m ident = Some rc" and r0: "valid cfg (spread r0 d)"
    by (auto simp: applicable_def has_def)
  have "valid cfg rc" using Cons.prems(1) rc by (rule well_formed_map_of)
  with r0 have "valid cfg (spread rc d)" by (rule valid_spread)
  with Cons.prems(1) have w: "well_formed cfg (AList.update ident (spread rc d) m)"
    by (rule well_formed_update)
  have "list_all (applicable cfg (AList.update ident (spread rc d) m)) updates"
    using Cons.prems(2) by (auto simp: list_all_iff applicable_def has_update)
  from Cons.IH [OF w this] show ?case
    using x rc by simp
qed

lemma updateMany_invariant:
  assumes "invariant cfg db"
  shows "invariant cfg (snd (updateMany cfg updates db))"
proof (cases "validate_updates cfg (data db) updates 0")
  case (Inl e)
  with assms show ?thesis by (simp add: updateMany_def)
next
  case (Inr u)
  then have "list_all (applicable cfg (data db)) updates" by (rule validate_updates_Inr)
  with assms have "well_formed cfg (apply_updates (data db) updates)"
    by (simp add: invariant_well_formed apply_updates_well_formed)
  then have "well_formed cfg (data (snd (saveChanges cfg (db\<lparr>data := apply_updates (data db) updates\<rparr>))))"
    by (simp add: saveChanges_data)
  with assms Inr show ?thesis
    by (auto simp: updateMany_def invariant_well_formed Let_def split: sum.splits prod.splits)
qed

lemma well_formed_fold_update:
  "well_formed cfg m \<Longrightarrow> list_all (\<lambda>entry. valid cfg (snd entry)) entries \<Longrightarrow>
     well_formed cfg (fold (\<lambda>(ident, v). AList.update ident v) entries m)"
  by (induction entries arbitrary: m) (auto simp: well_formed_update)

lemma import_invariant:
  assumes "invariant cfg db"
  shows "invariant cfg (snd (import cfg s db))"
proof (cases "JSON_parse s")
  case None
  with assms show ?thesis by (simp add: import_def)
next
  case (Some entries)
  define validEntries where
    "validEntries = filter (\<lambda>(_, v). case validate cfg v of Inl _ \<Rightarrow> False | Inr ok \<Rightarrow> ok) entries"
  have v: "list_all (\<lambda>entry. valid cfg (snd entry)) validEntries"
    by (auto simp: validEntries_def list_all_iff split: sum.splits dest: validate_Inr)
  obtain res db1 where c: "clear cfg db = (res, db1)" by (cases "clear cfg db")
  then have d1: "data db1 = []" by (auto simp: clear_def saveChanges_def Let_def split: if_splits)
  have "well_formed cfg (fold (\<lambda>(ident, v). AList.update ident v) validEntries [])"
    using v by (simp add: well_formed_fold_update well_formed_Nil)
  with assms Some c d1 show ?thesis
    by (auto simp: import_def invariant_well_formed saveChanges_data well_formed_Nil Let_def
                   validEntries_def [symmetric]
             split: sum.splits)
qed

lemma initialize_loop_well_formed:
  "well_formed cfg m \<Longrightarrow> initialize_loop cfg entries m = Inr m' \<Longrightarrow> well_formed cfg m'"
proof (induction entries arbitrary: m)
  case Nil
  then show ?case by simp
next
  case (Cons entry entries)
  obtain ident d where e: "entry = (ident, d)" by (cases entry)
  from Cons.prems(2) e obtain ok where
    v: "validate cfg d = Inr ok" and
    l: "initialize_loop cfg entries (AList.update ident d m) = Inr m'"
    by (auto split: sum.splits if_splits)
  from v have "valid cfg d" by (simp add: validate_Inr)
  with Cons.prems(1) have "well_formed cfg (AList.update ident d m)" by (rule well_formed_update)
  from Cons.IH [OF this l] show ?case .
qed

text \<open>The constructor establishes the invariant.\<close>

lemma new_Database_invariant:
  assumes "new_Database cfg storedData = Inr db"
  shows "invariant cfg db"
proof -
  from assms obtain m where i: "initialize cfg storedData = Inr m" and d: "data db = m"
    by (auto simp: new_Database_def split: if_splits sum.splits)
  from i have "well_formed cfg m"
    by (auto simp: initialize_def well_formed_Nil
             split: option.splits serialized.splits
             dest: initialize_loop_well_formed [OF well_formed_Nil])
  with d show ?thesis by (simp add: invariant_well_formed)
qed

text \<open>
  C9. The invariant of the in-memory collection, that identifiers are unique and
  every record passes validation, is preserved by every public operation that writes:
  \<open>create\<close>, \<open>createMany\<close>, \<open>update\<close>, \<open>updateMany\<close>, \<open>delete\<close>, \<open>deleteMany\<close>, \<open>import\<close> and
  \<open>clear\<close>, whether the operation returns or throws.
\<close>

theorem invariant_preserved:
  assumes "invariant cfg db"
  shows "invariant cfg (snd (create cfg d db))
       \<and> invariant cfg (snd (createMany cfg items db))
       \<and> invariant cfg (snd (update cfg ident d db))
       \<and> invariant cfg (snd (updateMany cfg updates db))
       \<and> invariant cfg (snd (delete cfg ident db))
       \<and> invariant cfg (snd (deleteMany cfg ids db))
       \<and> invariant cfg (snd (import cfg s db))
       \<and> invariant cfg (snd (clear cfg db))"
  using assms
  by (simp add: create_invariant createMany_invariant update_invariant updateMany_invariant
                delete_invariant deleteMany_invariant import_invariant clear_invariant)

lemma invariant_two_users: "invariant users two_users"
  by (simp add: invariant_def two_users_def valid_user)

theorem invariant_preserved_witness:
  "invariant users two_users
   \<and> invariant users (snd (create users (user 40) two_users))
   \<and> invariant users (snd (createMany users [user 40, user 50] two_users))
   \<and> invariant users (snd (update users ''00000000000000aa'' (user 31) two_users))
   \<and> invariant users (snd (updateMany users
        [(''00000000000000aa'', user 31), (''00000000000000aa'', user 32)] two_users))
   \<and> invariant users (snd (delete users ''00000000000000aa'' two_users))
   \<and> invariant users (snd (deleteMany users [''00000000000000aa'', ''00000000000000bb''] two_users))
   \<and> invariant users (snd (import users stored_with_invalid_entry two_users))
   \<and> invariant users (snd (clear users two_users))"
  using invariant_two_users
    invariant_preserved [OF invariant_two_users,
      where d = "user 40" and items = "[user 40, user 50]"
        and updates = "[(''00000000000000aa'', user 31), (''00000000000000aa'', user 32)]"
        and ident = "''00000000000000aa''"
        and ids = "[''00000000000000aa'', ''00000000000000bb'']"
        and s = stored_with_invalid_entry]
    invariant_preserved [OF invariant_two_users,
      where d = "user 31" and ident = "''00000000000000aa''"]
  by blast

section \<open>\<open>export\<close>, \<open>clear\<close>, \<open>import\<close>\<close>

lemma of_json_to_json: "to_json v = Some j \<Longrightarrow> of_json j = v"
  by (cases v) auto

lemma parse_stringify_object:
  assumes "storable d"
  shows "parse_object (stringify_object d) = d"
proof
  fix key
  show "parse_object (stringify_object d) key = d key"
  proof (cases "d key")
    case None
    then show ?thesis by (simp add: parse_object_def stringify_object_def)
  next
    case (Some v)
    with assms have "v \<noteq> Undefined" by (auto simp: storable_def image_iff) metis
    then obtain j where "to_json v = Some j" by (cases v) auto
    with Some show ?thesis
      by (simp add: parse_object_def stringify_object_def of_json_to_json)
  qed
qed

lemma JSON_parse_stringify:
  "list_all (\<lambda>entry. storable (snd entry)) m \<Longrightarrow> JSON_parse (JSON_stringify m) = Some m"
  by (induction m) (auto simp: JSON_stringify_def parse_stringify_object)

lemma update_fresh: "k \<notin> fst ` set m \<Longrightarrow> AList.update k v m = m @ [(k, v)]"
  by (induction m) auto

lemma fold_update_fresh:
  "distinct (map fst (m @ es)) \<Longrightarrow> fold (\<lambda>(ident, v). AList.update ident v) es m = m @ es"
proof (induction es arbitrary: m)
  case Nil
  then show ?case by simp
next
  case (Cons e es)
  obtain k v where e: "e = (k, v)" by (cases e)
  with Cons.prems have "k \<notin> fst ` set m" by auto
  then have u: "AList.update k v m = m @ [(k, v)]" by (rule update_fresh)
  have "distinct (map fst ((m @ [(k, v)]) @ es))" using Cons.prems e by simp
  from Cons.IH [OF this] show ?case using e u by simp
qed

lemma filter_valid_entries:
  "list_all (\<lambda>entry. valid cfg (snd entry)) entries \<Longrightarrow>
     filter (\<lambda>(_, v). case validate cfg v of Inl _ \<Rightarrow> False | Inr ok \<Rightarrow> ok) entries = entries"
  by (induction entries) (auto simp: validate_valid)

text \<open>What \<open>import\<close> does with entries that all pass validation, on a host that stores both strings.\<close>

lemma import_valid:
  assumes "JSON_parse s = Some entries"
    and "list_all (\<lambda>entry. valid cfg (snd entry)) entries"
    and "host_accepts cfg (JSON_stringify [])"
    and "host_accepts cfg (JSON_stringify (fold (\<lambda>(ident, v). AList.update ident v) entries []))"
  shows "import cfg s db =
           (Inr (), db\<lparr>data := fold (\<lambda>(ident, v). AList.update ident v) entries [],
                       storage := Some (JSON_stringify
                                          (fold (\<lambda>(ident, v). AList.update ident v) entries []))\<rparr>)"
  using assms
  by (simp add: import_def filter_valid_entries clear_def saveChanges_def)

lemma storable_user: "storable (user age)"
  by (auto simp: storable_def user_def)

lemma stringify_undecided:
  "parse_object (stringify_object [''age'' \<mapsto> Num 30, ''nick'' \<mapsto> Undefined]) = user 30"
  by (rule ext) (simp add: parse_object_def stringify_object_def user_def)

lemma create_undecided:
  "create users [''age'' \<mapsto> Num 30, ''nick'' \<mapsto> Undefined] fresh
     = (Inr ''0123456789abcdef'', undecided)"
proof -
  have "valid users [''age'' \<mapsto> Num 30, ''nick'' \<mapsto> Undefined]"
    by (simp add: valid_def users_def passes_def property_def js_gt_def)
  moreover have "generateId users fresh = (Inr ''0123456789abcdef'', fresh\<lparr>draws := 16\<rparr>)"
    by (simp add: generateId_def fresh_def has_def Let_def maxAttempts_def random_id_users)
  ultimately show ?thesis
    by (simp add: create_def validate_valid saveChanges_def fresh_def undecided_def)
       (simp add: users_def)
qed

text \<open>
  C6, as stated, fails: \<open>JSON.stringify\<close> leaves out a property that holds \<open>undefined\<close>.
  On a store of one valid record with such a property, \<open>export\<close>, \<open>clear\<close> and \<open>import\<close>
  all succeed, and the record that comes back has lost the property.
\<close>

theorem export_clear_import_counterexample:
  "invariant users undecided
   \<and> fst (clear users undecided) = Inr ()
   \<and> fst (import users (export undecided) (snd (clear users undecided))) = Inr ()
   \<and> data (snd (import users (export undecided) (snd (clear users undecided))))
       = [(''0123456789abcdef'', user 30)]
   \<and> data undecided \<noteq> [(''0123456789abcdef'', user 30)]"
proof -
  have v: "valid users [''age'' \<mapsto> Num 30, ''nick'' \<mapsto> Undefined]"
    by (simp add: valid_def users_def passes_def property_def js_gt_def)
  then have i: "invariant users undecided"
    by (simp add: invariant_def undecided_def)
  have c: "clear users undecided = (Inr (), undecided\<lparr>data := [], storage := Some (JSON_stringify [])\<rparr>)"
    by (simp add: clear_def saveChanges_def users_def)
  have p: "JSON_parse (export undecided) = Some [(''0123456789abcdef'', user 30)]"
    by (simp add: export_def undecided_def JSON_stringify_def stringify_undecided)
  have "import users (export undecided) (snd (clear users undecided)) =
          (Inr (), undecided\<lparr>data := [(''0123456789abcdef'', user 30)],
                             storage := Some (JSON_stringify [(''0123456789abcdef'', user 30)])\<rparr>)"
    using import_valid [OF p, of users "snd (clear users undecided)"]
    by (simp add: valid_user c) (simp add: users_def)
  moreover have "[''age'' \<mapsto> Num 30, ''nick'' \<mapsto> Undefined] \<noteq> user 30"
  proof
    assume "[''age'' \<mapsto> Num 30, ''nick'' \<mapsto> Undefined] = user 30"
    then have "[''age'' \<mapsto> Num 30, ''nick'' \<mapsto> Undefined] ''nick'' = user 30 ''nick''" by simp
    then show False by (simp add: user_def)
  qed
  ultimately show ?thesis
    using i c by (simp add: undecided_def)
qed

text \<open>
  C6, amended. For every state of the collection (unique identifiers, valid records)
  in which no property of a record holds \<open>undefined\<close>, and on a host that stores the
  two strings written (the empty list and the exported one): \<open>export()\<close>, then
  \<open>clear()\<close>, then \<open>import\<close> of the exported string all succeed and restore the original
  mapping from identifiers to records exactly, in its order, and the persisted string
  is the exported one.
\<close>

theorem export_clear_import:
  assumes "invariant cfg db"
    and "list_all (\<lambda>entry. storable (snd entry)) (data db)"
    and "host_accepts cfg (JSON_stringify [])"
    and "host_accepts cfg (export db)"
  shows "\<exists>db1 db2. clear cfg db = (Inr (), db1)
           \<and> import cfg (export db) db1 = (Inr (), db2)
           \<and> data db2 = data db \<and> storage db2 = Some (export db)"
proof -
  have c: "clear cfg db = (Inr (), db\<lparr>data := [], storage := Some (JSON_stringify [])\<rparr>)"
    using assms(3) by (simp add: clear_def saveChanges_def)
  have p: "JSON_parse (export db) = Some (data db)"
    using assms(2) by (simp add: export_def JSON_parse_stringify)
  have v: "list_all (\<lambda>entry. valid cfg (snd entry)) (data db)"
    using assms(1) by (simp add: invariant_def)
  have "distinct (map fst ([] @ data db))" using assms(1) by (simp add: invariant_def)
  then have f: "fold (\<lambda>(ident, v). AList.update ident v) (data db) [] = data db"
    using fold_update_fresh [of "[]" "data db"] by simp
  have "host_accepts cfg (JSON_stringify (fold (\<lambda>(ident, v). AList.update ident v) (data db) []))"
    using assms(4) f by (simp add: export_def)
  from import_valid [OF p v assms(3) this] c f show ?thesis
    by (simp add: export_def)
qed


theorem export_clear_import_witness:
  "invariant users two_users \<and> list_all (\<lambda>entry. storable (snd entry)) (data two_users) \<and>
   (\<exists>db1 db2. clear users two_users = (Inr (), db1)
       \<and> import users (export two_users) db1 = (Inr (), db2)
       \<and> data db2 = data two_users \<and> storage db2 = Some (export two_users))"
proof -
  have i: "invariant users two_users"
    by (simp add: invariant_def two_users_def valid_user)
  have s: "list_all (\<lambda>entry. storable (snd entry)) (data two_users)"
    by (simp add: two_users_def storable_user)
  have a: "host_accepts users (JSON_stringify [])" "host_accepts users (export two_users)"
    by (simp_all add: users_def)
  from export_clear_import [OF i s a] i s show ?thesis by blast
qed

section \<open>\<open>import\<close> of an identifier that occurs twice\<close>

lemma map_of_fold_update:
  "map_of (fold (\<lambda>(ident, v). AList.update ident v) es m) = map_of m ++ map_of (rev es)"
proof (induction es arbitrary: m)
  case Nil
  then show ?case by simp
next
  case (Cons e es)
  obtain k v where e: "e = (k, v)" by (cases e)
  have "map_of (AList.update k v m) ++ map_of (rev es) = map_of m ++ map_of (rev es @ [(k, v)])"
    by (rule ext) (simp add: update_conv' map_add_def split: option.splits)
  with Cons.IH [of "AList.update k v m"] e show ?case by simp
qed

lemma keys_fold_update:
  "fst ` set (fold (\<lambda>(ident, v). AList.update ident v) es m) = fst ` set m \<union> fst ` set es"
proof (induction es arbitrary: m)
  case Nil
  then show ?case by simp
next
  case (Cons e es)
  obtain k v where e: "e = (k, v)" by (cases e)
  have "fst ` set (AList.update k v m) = insert k (fst ` set m)"
    by (simp add: dom_update)
  with Cons.IH [of "AList.update k v m"] e show ?case by simp
qed

lemma distinct_fold_update:
  "distinct (map fst m) \<Longrightarrow> distinct (map fst (fold (\<lambda>(ident, v). AList.update ident v) es m))"
  by (induction es arbitrary: m) (auto simp: distinct_update)

lemma length_fold_update:
  assumes "\<not> distinct (map fst es)"
  shows "length (fold (\<lambda>(ident, v). AList.update ident v) es []) < length es"
proof -
  let ?r = "fold (\<lambda>(ident, v). AList.update ident v) es []"
  have "distinct (map fst ?r)" by (simp add: distinct_fold_update)
  then have "length ?r = card (set (map fst ?r))"
    by (metis distinct_card length_map)
  also have "\<dots> = card (set (map fst es))"
    using keys_fold_update [of es "[]"] by simp
  also have "\<dots> < length es"
    using assms card_length [of "map fst es"] card_distinct [of "map fst es"] by force
  finally show ?thesis .
qed

text \<open>
  C10, as stated, fails: entries that all pass validation are not enough for
  \<open>import\<close> to succeed. When the host refuses the string, \<open>import\<close> raises
  \<open>STORAGE_WRITE_ERROR\<close>, here from its call of \<open>clear\<close>, which has emptied the map.
\<close>

theorem import_duplicate_ids_counterexample:
  "\<not> distinct (map fst twice)
   \<and> list_all (\<lambda>entry. valid users_full_host (parse_object (snd entry))) twice
   \<and> import users_full_host (EntriesJSON twice) two_users =
       (Inl (DatabaseError STORAGE_WRITE_ERROR OriginalError), two_users\<lparr>data := []\<rparr>)"
proof -
  have v: "list_all (\<lambda>entry. valid users_full_host (snd entry))
             (map (\<lambda>(ident, j). (ident, parse_object j)) twice)"
    by (simp add: twice_def parse_object_user valid_user_full_host)
  have "clear users_full_host two_users =
          (Inl (DatabaseError STORAGE_WRITE_ERROR OriginalError), two_users\<lparr>data := []\<rparr>)"
    by (simp add: clear_def saveChanges_def users_full_host_def)
  with v show ?thesis
    by (simp add: import_def filter_valid_entries)
       (simp add: twice_def parse_object_user valid_user_full_host)
qed


text \<open>
  C10, amended. For every string that parses to a list of entries in which an
  identifier occurs more than once and every entry passes validation, on a host that
  stores the two strings written (the empty list, by \<open>clear\<close>, and the entries merged, by
  \<open>saveChanges\<close>): \<open>import\<close> succeeds, the resulting collection maps each identifier to
  the record of its last occurrence in the list, and it holds fewer records than the
  list has entries.
\<close>

theorem import_duplicate_ids:
  assumes "\<not> distinct (map fst es)"
    and "list_all (\<lambda>entry. valid cfg (parse_object (snd entry))) es"
    and "host_accepts cfg (JSON_stringify [])"
    and "host_accepts cfg
           (JSON_stringify (fold (\<lambda>(ident, v). AList.update ident v)
              (map (\<lambda>(ident, j). (ident, parse_object j)) es) []))"
  shows "\<exists>db'. import cfg (EntriesJSON es) db = (Inr (), db')
           \<and> map_of (data db') = map_of (rev (map (\<lambda>(ident, j). (ident, parse_object j)) es))
           \<and> length (data db') < length es"
proof -
  let ?entries = "map (\<lambda>(ident, j). (ident, parse_object j)) es"
  have p: "JSON_parse (EntriesJSON es) = Some ?entries" by simp
  have v: "list_all (\<lambda>entry. valid cfg (snd entry)) ?entries"
    using assms(2) by (auto simp: list_all_iff)
  have k: "map fst ?entries = map fst es" by (induction es) auto
  have "\<not> distinct (map fst ?entries)" by (subst k) (rule assms(1))
  then have "length (fold (\<lambda>(ident, v). AList.update ident v) ?entries []) < length ?entries"
    by (rule length_fold_update)
  with import_valid [OF p v assms(3,4), of db] show ?thesis
    by (simp add: map_of_fold_update)
qed

text \<open>On the host with room for two entries: the three entries merge into two.\<close>

theorem import_duplicate_ids_witness:
  "\<not> distinct (map fst twice)
   \<and> list_all (\<lambda>entry. valid users_small_host (parse_object (snd entry))) twice
   \<and> \<not> host_accepts users_small_host (JSON_stringify (data four_users))
   \<and> (\<exists>db'. import users_small_host (EntriesJSON twice) two_users = (Inr (), db')
         \<and> map_of (data db') = map_of (rev (map (\<lambda>(ident, j). (ident, parse_object j)) twice))
         \<and> length (data db') < length twice)"
proof -
  have d: "\<not> distinct (map fst twice)" by (simp add: twice_def)
  have v: "list_all (\<lambda>entry. valid users_small_host (parse_object (snd entry))) twice"
    by (simp add: twice_def parse_object_user valid_user_small_host)
  have a: "host_accepts users_small_host (JSON_stringify [])"
    by (simp add: users_small_host_def JSON_stringify_def)
  have b: "host_accepts users_small_host
             (JSON_stringify (fold (\<lambda>(ident, v). AList.update ident v)
                (map (\<lambda>(ident, j). (ident, parse_object j)) twice) []))"
    by (simp add: users_small_host_def JSON_stringify_def twice_def)
  have n: "\<not> host_accepts users_small_host (JSON_stringify (data four_users))"
    by (simp add: users_small_host_def JSON_stringify_def four_users_def)
  from import_duplicate_ids [OF d v a b, of two_users] d v n show ?thesis by blast
qed


section \<open>Batch operations that fail after validation\<close>

text \<open>\<open>updateMany\<close> and \<open>deleteMany\<close> put the snapshot back whatever fails.\<close>

lemma saveChanges_Inl:
  "saveChanges cfg db = (Inl e, db') \<Longrightarrow> db' = db"
  by (auto simp: saveChanges_def Let_def split: if_splits)

lemma updateMany_Inl: "updateMany cfg updates db = (Inl e, db') \<Longrightarrow> db' = db"
  by (auto simp: updateMany_def Let_def split: sum.splits prod.splits dest!: saveChanges_Inl)

lemma deleteMany_Inl: "deleteMany cfg ids db = (Inl e, db') \<Longrightarrow> db' = db"
  by (auto simp: deleteMany_def Let_def split: sum.splits prod.splits dest!: saveChanges_Inl)

lemma random_id_users_small_host: "random_id users_small_host 32 = ''0123456789abcdef''"
  by code_simp

lemma in_step_two_users: "in_step two_users"
  by (simp add: in_step_def two_users_def JSON_parse_stringify storable_user)

text \<open>
  When the identifiers run out in the middle of a batch, \<open>createMany\<close> keeps the records
  inserted before: of two valid users the first is in memory, and nothing is persisted.
\<close>

lemma random_id_stuck: "random_id users_stuck_random n = ''0000000000000000''"
  by (simp add: random_id_def users_stuck_random_def hex_digit_def upt_rec)

lemma valid_user_stuck_random: "valid users_stuck_random (user age) \<longleftrightarrow> 0 < age"
  by (simp add: valid_def users_stuck_random_def users_def passes_def property_def user_def js_gt_def)

lemma createMany_partial_insert:
  "createMany users_stuck_random [user 30, user 25] fresh =
     (Inl (DatabaseError DUPLICATE_KEY (AttemptsDetails maxAttempts)),
      \<lparr>data = [(''0000000000000000'', user 30)], storage = None, draws = 16 + 16 * maxAttempts\<rparr>)"
proof -
  have g1: "generateId users_stuck_random fresh = (Inr ''0000000000000000'', fresh\<lparr>draws := 16\<rparr>)"
    by (simp add: generateId_def fresh_def has_def Let_def maxAttempts_def random_id_stuck)
  have "generateId_loop users_stuck_random [(''0000000000000000'', user 30)] 0 16 =
          Inl (DatabaseError DUPLICATE_KEY (AttemptsDetails maxAttempts))"
    by (rule generateId_loop_exhausted) (simp add: random_id_stuck has_def)
  then have g2: "generateId users_stuck_random
                   (fresh\<lparr>draws := 16, data := [(''0000000000000000'', user 30)]\<rparr>) =
      (Inl (DatabaseError DUPLICATE_KEY (AttemptsDetails maxAttempts)),
       fresh\<lparr>draws := 16 + 16 * maxAttempts, data := [(''0000000000000000'', user 30)]\<rparr>)"
    by (simp add: generateId_def fresh_def del: generateId_loop.simps)
  show ?thesis
    using g1 g2
    by (simp add: createMany_def validate_valid valid_user_stuck_random fresh_def
             del: generateId_loop.simps)
qed

text \<open>
  C4 says that a batch operation that raises an error has restored the in-memory
  collection to match the persisted state. \<open>createMany\<close> and \<open>import\<close> do not: on a
  store of two users in step with a host that has room for two entries, \<open>createMany\<close>
  of a third user raises \<open>STORAGE_WRITE_ERROR\<close> and keeps the third user in memory, and
  \<open>import\<close> of three users raises it with the three users in memory and the empty list
  persisted.
\<close>

theorem createMany_import_not_restored:
  "in_step two_users
   \<and> createMany users_small_host [user 40] two_users =
       (Inl (DatabaseError STORAGE_WRITE_ERROR OriginalError),
        two_users\<lparr>data := data two_users @ [(''0123456789abcdef'', user 40)], draws := 48\<rparr>)
   \<and> \<not> in_step (snd (createMany users_small_host [user 40] two_users))
   \<and> import users_small_host (EntriesJSON three) two_users =
       (Inl (DatabaseError STORAGE_WRITE_ERROR OriginalError),
        two_users\<lparr>data := map (\<lambda>(ident, j). (ident, parse_object j)) three,
                   storage := Some (JSON_stringify [])\<rparr>)
   \<and> \<not> in_step (snd (import users_small_host (EntriesJSON three) two_users))"
proof -
  have g: "generateId users_small_host two_users = (Inr ''0123456789abcdef'', two_users\<lparr>draws := 48\<rparr>)"
    by (simp add: generateId_def Let_def maxAttempts_def random_id_users_small_host has_def
                  two_users_def)
  have c: "createMany users_small_host [user 40] two_users =
       (Inl (DatabaseError STORAGE_WRITE_ERROR OriginalError),
        two_users\<lparr>data := data two_users @ [(''0123456789abcdef'', user 40)], draws := 48\<rparr>)"
    using g
    by (simp add: createMany_def validate_valid valid_user_small_host saveChanges_def)
       (simp add: two_users_def users_small_host_def JSON_stringify_def)
  have i: "import users_small_host (EntriesJSON three) two_users =
       (Inl (DatabaseError STORAGE_WRITE_ERROR OriginalError),
        two_users\<lparr>data := map (\<lambda>(ident, j). (ident, parse_object j)) three,
                   storage := Some (JSON_stringify [])\<rparr>)"
    by (simp add: import_def three_def parse_object_user validate_valid valid_user_small_host
                  clear_def saveChanges_def)
       (simp add: users_small_host_def JSON_stringify_def saveChanges_def)
  have "\<not> in_step (snd (createMany users_small_host [user 40] two_users))"
    by (simp add: c in_step_def) (simp add: two_users_def JSON_stringify_def)
  moreover have "\<not> in_step (snd (import users_small_host (EntriesJSON three) two_users))"
    by (simp add: i in_step_def) (simp add: JSON_stringify_def three_def)
  ultimately show ?thesis
    using c i in_step_two_users by simp
qed


end
